theory Spec2Isabelle
  imports Main
begin

section \<open>Machine integers of the C++ source\<close>

text \<open>
  Integer values are mathematical integers; every conversion the C++ language defines is
  written out.  Conversion to an unsigned type of width w is reduction modulo 2 ^ w,
  conversion to a signed type is the two's complement reading (C++20), and the operators
  \<^verbatim>\<open>/\<close> and \<^verbatim>\<open>%\<close> on signed operands truncate towards zero.
  Signed arithmetic itself is not wrapped: signed overflow is undefined in C++, and the
  theorems below carry range hypotheses that keep every signed intermediate value inside
  its type.
\<close>

definition u8 :: "int \<Rightarrow> int" where
  "u8 x = x mod 2 ^ 8"

definition u16 :: "int \<Rightarrow> int" where
  "u16 x = x mod 2 ^ 16"

definition u32 :: "int \<Rightarrow> int" where
  "u32 x = x mod 2 ^ 32"

definition u64 :: "int \<Rightarrow> int" where
  "u64 x = x mod 2 ^ 64"

definition s32 :: "int \<Rightarrow> int" where
  "s32 x = (x + 2 ^ 31) mod 2 ^ 32 - 2 ^ 31"

definition s64 :: "int \<Rightarrow> int" where
  "s64 x = (x + 2 ^ 63) mod 2 ^ 64 - 2 ^ 63"

text \<open>Signed division and remainder, truncating towards zero.\<close>

definition tdiv :: "int \<Rightarrow> int \<Rightarrow> int" where
  "tdiv a b = sgn a * sgn b * (\<bar>a\<bar> div \<bar>b\<bar>)"

definition tmod :: "int \<Rightarrow> int \<Rightarrow> int" where
  "tmod a b = a - tdiv a b * b"


section \<open>datetime\_config.hpp: constants, calendar utilities, validators\<close>

abbreviation (input) HOURS_PER_DAY :: int where "HOURS_PER_DAY \<equiv> 24"
abbreviation (input) MINUTES_PER_HOUR :: int where "MINUTES_PER_HOUR \<equiv> 60"
abbreviation (input) SECONDS_PER_MINUTE :: int where "SECONDS_PER_MINUTE \<equiv> 60"
abbreviation (input) SECONDS_PER_HOUR :: int where "SECONDS_PER_HOUR \<equiv> 3600"
abbreviation (input) SECONDS_PER_DAY :: int where "SECONDS_PER_DAY \<equiv> 86400"
abbreviation (input) NANOS_PER_MICROSECOND :: int where "NANOS_PER_MICROSECOND \<equiv> 1000"
abbreviation (input) NANOS_PER_MILLISECOND :: int where "NANOS_PER_MILLISECOND \<equiv> 1000000"
abbreviation (input) NANOS_PER_SECOND :: int where "NANOS_PER_SECOND \<equiv> 1000000000"
abbreviation (input) NANOS_PER_MINUTE :: int where "NANOS_PER_MINUTE \<equiv> 60000000000"
abbreviation (input) NANOS_PER_HOUR :: int where "NANOS_PER_HOUR \<equiv> 3600000000000"
abbreviation (input) NANOS_PER_DAY :: int where "NANOS_PER_DAY \<equiv> 86400000000000"
abbreviation (input) DAYS_IN_YEAR :: int where "DAYS_IN_YEAR \<equiv> 365"
abbreviation (input) DAYS_IN_LEAP_YEAR :: int where "DAYS_IN_LEAP_YEAR \<equiv> 366"
abbreviation (input) MONTHS_PER_YEAR :: int where "MONTHS_PER_YEAR \<equiv> 12"
abbreviation (input) MIN_YEAR :: int where "MIN_YEAR \<equiv> 1"
abbreviation (input) MAX_YEAR :: int where "MAX_YEAR \<equiv> 9999"

definition DAYS_PER_MONTH :: "int list" where
  "DAYS_PER_MONTH = [31, 28, 31, 30, 31, 30, 31, 31, 30, 31, 30, 31]"

definition CUMULATIVE_DAYS :: "int list" where
  "CUMULATIVE_DAYS = [0, 31, 59, 90, 120, 151, 181, 212, 243, 273, 304, 334, 365]"

definition is_leap_year :: "int \<Rightarrow> bool" where
  "is_leap_year year \<longleftrightarrow>
     tmod year 400 = 0 \<or> (tmod year 4 = 0 \<and> tmod year 100 \<noteq> 0)"

definition days_in_month :: "int \<Rightarrow> int \<Rightarrow> int" where
  "days_in_month month year =
     (if month < 1 \<or> month > 12 then 0
      else if month \<noteq> 2 then DAYS_PER_MONTH ! nat (month - 1)
      else if is_leap_year year then 29 else 28)"

definition days_since_epoch :: "int \<Rightarrow> int" where
  "days_since_epoch year =
     (let y = year - 1 in y * 365 + tdiv y 4 - tdiv y 100 + tdiv y 400)"

definition days_in_year :: "int \<Rightarrow> int" where
  "days_in_year year = (if is_leap_year year then DAYS_IN_LEAP_YEAR else DAYS_IN_YEAR)"

definition is_valid_year :: "int \<Rightarrow> bool" where
  "is_valid_year year \<longleftrightarrow> year \<ge> MIN_YEAR \<and> year \<le> MAX_YEAR"

text \<open>\<^verbatim>\<open>MONTHS_PER_YEAR\<close> and the three time limits are \<^verbatim>\<open>uint32_t\<close>:
  the comparison converts the \<^verbatim>\<open>int\<close> operand to unsigned.\<close>

definition is_valid_month :: "int \<Rightarrow> bool" where
  "is_valid_month month \<longleftrightarrow> month \<ge> 1 \<and> u32 month \<le> MONTHS_PER_YEAR"

definition is_valid_day :: "int \<Rightarrow> int \<Rightarrow> int \<Rightarrow> bool" where
  "is_valid_day day month year \<longleftrightarrow> day \<ge> 1 \<and> day \<le> days_in_month month year"

definition is_valid_date :: "int \<Rightarrow> int \<Rightarrow> int \<Rightarrow> bool" where
  "is_valid_date year month day \<longleftrightarrow>
     is_valid_year year \<and> is_valid_month month \<and> is_valid_day day month year"

definition is_valid_hour :: "int \<Rightarrow> bool" where
  "is_valid_hour hour \<longleftrightarrow> hour \<ge> 0 \<and> u32 hour < HOURS_PER_DAY"

definition is_valid_minute :: "int \<Rightarrow> bool" where
  "is_valid_minute minute \<longleftrightarrow> minute \<ge> 0 \<and> u32 minute < MINUTES_PER_HOUR"

definition is_valid_second :: "int \<Rightarrow> bool" where
  "is_valid_second second \<longleftrightarrow> second \<ge> 0 \<and> u32 second < SECONDS_PER_MINUTE"

definition is_valid_nanosecond :: "int \<Rightarrow> bool" where
  "is_valid_nanosecond nanosecond \<longleftrightarrow>
     nanosecond \<ge> 0 \<and> nanosecond < s32 NANOS_PER_SECOND"

definition is_valid_time :: "int \<Rightarrow> int \<Rightarrow> int \<Rightarrow> int \<Rightarrow> bool" where
  "is_valid_time hour minute second nanosecond \<longleftrightarrow>
     is_valid_hour hour \<and> is_valid_minute minute \<and>
     is_valid_second second \<and> is_valid_nanosecond nanosecond"

text \<open>The exceptions of the library, all of type \<^verbatim>\<open>std::out_of_range\<close>, named by
  their messages.  A function returning \<open>error + 'a\<close> yields \<open>Inl\<close> where the source
  throws (inside a \<^verbatim>\<open>noexcept\<close> function the throw ends the program).\<close>

datatype error = Invalid_date | Invalid_time_components | Nanoseconds_exceed_24_hours


section \<open>time.hpp: class Time\<close>

record Time =
  total_nanos :: int

definition Time_ctor :: "int \<Rightarrow> int \<Rightarrow> int \<Rightarrow> int \<Rightarrow> error + Time" where
  "Time_ctor h mi s ns =
     (if \<not> is_valid_time h mi s ns then Inl Invalid_time_components
      else Inr \<lparr>total_nanos =
        u64 (u64 (u64 (u64 (u64 h * NANOS_PER_HOUR) + u64 (u64 mi * NANOS_PER_MINUTE))
                  + u64 (u64 s * NANOS_PER_SECOND)) + u64 ns)\<rparr>)"

definition Time_from_nanos :: "int \<Rightarrow> error + Time" where
  "Time_from_nanos nanos =
     (if nanos \<ge> NANOS_PER_DAY then Inl Nanoseconds_exceed_24_hours
      else Inr \<lparr>total_nanos = nanos\<rparr>)"

definition hour :: "Time \<Rightarrow> int" where
  "hour t = s32 (total_nanos t div NANOS_PER_HOUR)"

definition minute :: "Time \<Rightarrow> int" where
  "minute t = s32 ((total_nanos t mod NANOS_PER_HOUR) div NANOS_PER_MINUTE)"

definition second :: "Time \<Rightarrow> int" where
  "second t = s32 ((total_nanos t mod NANOS_PER_MINUTE) div NANOS_PER_SECOND)"

definition nanosecond :: "Time \<Rightarrow> int" where
  "nanosecond t = s32 (total_nanos t mod NANOS_PER_SECOND)"

definition millisecond :: "Time \<Rightarrow> int" where
  "millisecond t = s32 ((total_nanos t mod NANOS_PER_SECOND) div NANOS_PER_MILLISECOND)"

definition microsecond :: "Time \<Rightarrow> int" where
  "microsecond t = s32 ((total_nanos t mod NANOS_PER_SECOND) div NANOS_PER_MICROSECOND)"

definition total_seconds :: "Time \<Rightarrow> int" where
  "total_seconds t = s64 (total_nanos t div NANOS_PER_SECOND)"

definition total_nanoseconds :: "Time \<Rightarrow> int" where
  "total_nanoseconds t = total_nanos t"

definition Time_from_seconds :: "int \<Rightarrow> error + Time" where
  "Time_from_seconds seconds =
     (let s1 = tmod seconds SECONDS_PER_DAY;
          s2 = (if s1 < 0 then s1 + SECONDS_PER_DAY else s1)
      in Time_from_nanos (u64 (u64 s2 * NANOS_PER_SECOND)))"

definition Time_add_seconds :: "Time \<Rightarrow> int \<Rightarrow> Time" where
  "Time_add_seconds t seconds =
     (let total_secs = total_seconds t + seconds;
          total_secs = tmod total_secs SECONDS_PER_DAY;
          total_secs = (if total_secs < 0 then total_secs + SECONDS_PER_DAY else total_secs)
      in t\<lparr>total_nanos :=
           u64 (u64 (u64 total_secs * NANOS_PER_SECOND) + total_nanos t mod NANOS_PER_SECOND)\<rparr>)"

definition Time_add_minutes :: "Time \<Rightarrow> int \<Rightarrow> Time" where
  "Time_add_minutes t minutes = Time_add_seconds t (minutes * SECONDS_PER_MINUTE)"

definition Time_add_hours :: "Time \<Rightarrow> int \<Rightarrow> Time" where
  "Time_add_hours t hours = Time_add_seconds t (hours * SECONDS_PER_HOUR)"

text \<open>In \<^verbatim>\<open>nanos %= detail::NANOS_PER_DAY\<close> the right operand is \<^verbatim>\<open>uint64_t\<close>, so
  the \<^verbatim>\<open>int64_t\<close> left operand is converted to unsigned, the remainder is taken there
  and converted back; the same holds for the addition in the following line.\<close>

definition Time_add_milliseconds :: "Time \<Rightarrow> int \<Rightarrow> Time" where
  "Time_add_milliseconds t milliseconds =
     (let nanos = s64 (total_nanos t) + milliseconds * NANOS_PER_MILLISECOND;
          nanos = s64 (u64 nanos mod NANOS_PER_DAY);
          nanos = (if nanos < 0 then s64 (u64 (u64 nanos + NANOS_PER_DAY)) else nanos)
      in t\<lparr>total_nanos := u64 nanos\<rparr>)"

definition Time_add_nanoseconds :: "Time \<Rightarrow> int \<Rightarrow> Time" where
  "Time_add_nanoseconds t nanoseconds =
     (let nanos = s64 (total_nanos t) + nanoseconds;
          nanos = s64 (u64 nanos mod NANOS_PER_DAY);
          nanos = (if nanos < 0 then s64 (u64 (u64 nanos + NANOS_PER_DAY)) else nanos)
      in t\<lparr>total_nanos := u64 nanos\<rparr>)"


section \<open>date.hpp: class Date\<close>

record Date =
  year_f :: int
  month_f :: int
  day_f :: int

definition Date_ctor :: "int \<Rightarrow> int \<Rightarrow> int \<Rightarrow> error + Date" where
  "Date_ctor y m d =
     (if \<not> is_valid_date y m d then Inl Invalid_date
      else Inr \<lparr>year_f = u16 y, month_f = u8 m, day_f = u8 d\<rparr>)"

definition day_of_week :: "Date \<Rightarrow> int" where
  "day_of_week dt =
     (let y = year_f dt; m = month_f dt;
          (m, y) = (if m < 3 then (m + 12, y - 1) else (m, y));
          q = day_f dt;
          k = tmod y 100;
          j = tdiv y 100;
          h = tmod (q + tdiv (13 * (m + 1)) 5 + k + tdiv k 4 + tdiv j 4 - 2 * j) 7
      in tmod (h + 6) 7)"

definition day_of_year :: "Date \<Rightarrow> int" where
  "day_of_year dt =
     (let doy = CUMULATIVE_DAYS ! nat (month_f dt - 1) + day_f dt
      in if month_f dt > 2 \<and> is_leap_year (year_f dt) then doy + 1 else doy)"

text \<open>The first loop of \<^verbatim>\<open>Date::add_days\<close>:
  \<^verbatim>\<open>while (d > days_in_month(m, y)) { d -= days_in_month(m, y); if (++m > 12) { m = 1; y++; } }\<close>\<close>

text \<open>Truncating division against the floor division of HOL, for a positive divisor.\<close>

lemma tdiv_nonneg: "0 \<le> a \<Longrightarrow> 0 < b \<Longrightarrow> tdiv a b = a div b"
  by (cases "a = 0") (simp_all add: tdiv_def sgn_if)

lemma tdiv_neg: "a < 0 \<Longrightarrow> 0 < b \<Longrightarrow> tdiv a b = - ((- a) div b)"
  by (simp add: tdiv_def sgn_if)

lemma tmod_nonneg: "0 \<le> a \<Longrightarrow> 0 < b \<Longrightarrow> tmod a b = a mod b"
  by (simp add: tmod_def tdiv_nonneg minus_div_mult_eq_mod)

lemma tmod_neg: "a < 0 \<Longrightarrow> 0 < b \<Longrightarrow> tmod a b = - ((- a) mod b)"
  by (simp add: tmod_def tdiv_neg algebra_simps minus_mult_div_eq_mod) (metis minus_mult_div_eq_mod mult.commute add.commute diff_minus_eq_add minus_diff_eq)

lemma tmod_range: "0 < b \<Longrightarrow> - b < tmod a b \<and> tmod a b < b"
proof (cases "0 \<le> a")
  case True
  assume "0 < b"
  then have "0 \<le> a mod b" "a mod b < b" "tmod a b = a mod b"
    using True by (simp_all add: tmod_nonneg)
  then show ?thesis using \<open>0 < b\<close> by linarith
next
  case False
  assume "0 < b"
  then have "0 \<le> (- a) mod b" "(- a) mod b < b" "tmod a b = - ((- a) mod b)"
    using False by (simp_all add: tmod_neg)
  then show ?thesis using \<open>0 < b\<close> by linarith
qed

lemma tmod_eq_0_iff: "0 < b \<Longrightarrow> tmod a b = 0 \<longleftrightarrow> a mod b = 0"
  by (cases "0 \<le> a") (simp_all add: tmod_nonneg tmod_neg dvd_eq_mod_eq_0 [symmetric])

lemma tdiv_7_nonpos: "tdiv x 7 \<le> 0 \<Longrightarrow> x < 7"
proof (cases "0 \<le> x")
  case True
  assume "tdiv x 7 \<le> 0"
  then have "x div 7 \<le> 0" using True by (simp add: tdiv_nonneg)
  then show ?thesis by presburger
qed simp

lemma days_in_month_cases:
  "days_in_month m y =
     (if m = 2 then (if is_leap_year y then 29 else 28)
      else if m = 4 \<or> m = 6 \<or> m = 9 \<or> m = 11 then 30
      else if 1 \<le> m \<and> m \<le> 12 then 31 else 0)"
proof -
  have "m < 1 \<or> m = 1 \<or> m = 2 \<or> m = 3 \<or> m = 4 \<or> m = 5 \<or> m = 6 \<or> m = 7
    \<or> m = 8 \<or> m = 9 \<or> m = 10 \<or> m = 11 \<or> m = 12 \<or> m > 12"
    by presburger
  then show ?thesis
    by (elim disjE) (simp_all add: days_in_month_def DAYS_PER_MONTH_def)
qed

lemma days_in_month_nonneg: "0 \<le> days_in_month m y"
  by (simp add: days_in_month_cases)

lemma days_in_month_pos: "1 \<le> m \<Longrightarrow> m \<le> 12 \<Longrightarrow> 28 \<le> days_in_month m y"
  by (simp add: days_in_month_cases)

lemma days_in_month_outside: "m < 1 \<or> 12 < m \<Longrightarrow> days_in_month m y = 0"
  by (auto simp: days_in_month_def)

function add_days_forward :: "int \<Rightarrow> int \<Rightarrow> int \<Rightarrow> int \<times> int \<times> int" where
  "add_days_forward y m d =
     (if d > days_in_month m y then
        (let d' = d - days_in_month m y; m' = m + 1
         in if m' > 12 then add_days_forward (y + 1) 1 d' else add_days_forward y m' d')
      else (y, m, d))"
  by pat_completeness auto
termination
proof (relation "measures [\<lambda>(y, m, d). nat d,
    \<lambda>(y, m, d). if m > 12 then 14 else if m < 1 then nat (14 - m) else 0]", goal_cases)
  case 1
  show ?case by simp
next
  case (2 y m d x xa)
  then show ?case
    using days_in_month_nonneg [of m y] days_in_month_pos [of m y]
      days_in_month_outside [of m y]
    by (cases "m = 12") auto
next
  case (3 y m d x xa)
  then show ?case
    using days_in_month_nonneg [of m y] days_in_month_pos [of m y]
      days_in_month_outside [of m y]
    by (cases "1 \<le> m") auto
qed

text \<open>The second loop:
  \<^verbatim>\<open>while (d < 1) { if (--m < 1) { m = 12; y--; } d += days_in_month(m, y); }\<close>\<close>

function add_days_backward :: "int \<Rightarrow> int \<Rightarrow> int \<Rightarrow> int \<times> int \<times> int" where
  "add_days_backward y m d =
     (if d < 1 then
        (let m' = m - 1
         in if m' < 1 then add_days_backward (y - 1) 12 (d + days_in_month 12 (y - 1))
            else add_days_backward y m' (d + days_in_month m' y))
      else (y, m, d))"
  by pat_completeness auto
termination
proof (relation "measures [\<lambda>(y, m, d). nat (1 - d), \<lambda>(y, m, d). nat m]", goal_cases)
  case 1
  show ?case by simp
next
  case (2 y m d x)
  then show ?case
    using days_in_month_pos [of 12 "y - 1"] by auto
next
  case (3 y m d x)
  then show ?case
    using days_in_month_pos [of "m - 1" y] days_in_month_outside [of "m - 1" y]
    by (cases "m - 1 \<le> 12") auto
qed

declare add_days_forward.simps [simp del] add_days_backward.simps [simp del]


definition Date_add_days :: "Date \<Rightarrow> int \<Rightarrow> Date" where
  "Date_add_days dt days =
     (if days = 0 then dt
      else
        (let y = year_f dt; m = month_f dt; d = day_f dt + days;
             (y, m, d) = add_days_forward y m d;
             (y, m, d) = add_days_backward y m d
         in if is_valid_date y m d
            then dt\<lparr>year_f := u16 y, month_f := u8 m, day_f := u8 d\<rparr>
            else dt))"

definition Date_add_months :: "Date \<Rightarrow> int \<Rightarrow> Date" where
  "Date_add_months dt months =
     (if months = 0 then dt
      else
        (let total_months = (year_f dt - 1) * 12 + (month_f dt - 1) + months;
             new_year = tdiv total_months 12 + 1;
             new_month = tmod total_months 12 + 1;
             new_year = (if new_year < MIN_YEAR then MIN_YEAR else new_year);
             new_year = (if new_year > MAX_YEAR then MAX_YEAR else new_year);
             new_day = day_f dt;
             max_day = days_in_month new_month new_year;
             new_day = (if new_day > max_day then max_day else new_day)
         in if is_valid_date new_year new_month new_day
            then dt\<lparr>year_f := u16 new_year, month_f := u8 new_month, day_f := u8 new_day\<rparr>
            else dt))"

definition Date_add_years :: "Date \<Rightarrow> int \<Rightarrow> Date" where
  "Date_add_years dt years = Date_add_months dt (years * 12)"

definition days_between :: "Date \<Rightarrow> Date \<Rightarrow> int" where
  "days_between dt other =
     (let days1 = days_since_epoch (year_f dt) + day_of_year dt - 1;
          days2 = days_since_epoch (year_f other) + day_of_year other - 1
      in days1 - days2)"

lemma day_of_week_range: "0 \<le> day_of_week dt \<and> day_of_week dt \<le> 6"
proof -
  have r: "- 7 < h \<Longrightarrow> h < 7 \<Longrightarrow> 0 \<le> tmod (h + 6) 7 \<and> tmod (h + 6) 7 \<le> 6" for h :: int
    by (simp add: tmod_nonneg)
  show ?thesis
    unfolding day_of_week_def Let_def split_def
    by (rule r) (simp_all add: tmod_range)
qed

function week_number :: "Date \<Rightarrow> error + int" where
  "week_number dt =
     (case Date_ctor (year_f dt) 1 1 of
        Inl e \<Rightarrow> Inl e
      | Inr jan1 \<Rightarrow>
          (let dow_jan1 = day_of_week jan1;
               doy = day_of_year dt;
               week = tdiv (doy + dow_jan1 - 1) 7;
               week = (if dow_jan1 \<le> 3 then week + 1 else week)
           in if week = 0 then
                (case Date_ctor (year_f dt - 1) 12 31 of
                   Inl e \<Rightarrow> Inl e
                 | Inr last_year \<Rightarrow> week_number last_year)
              else if week = 53 then
                (case Date_ctor (year_f dt + 1) 1 1 of
                   Inl e \<Rightarrow> Inl e
                 | Inr next_jan1 \<Rightarrow>
                     (let dow_next_jan1 = day_of_week next_jan1
                      in if dow_next_jan1 \<le> 3 then Inr 1 else Inr week))
              else Inr week))"
  by pat_completeness auto

termination
proof (relation "measure (\<lambda>dt. nat (367 - day_of_year dt))", goal_cases)
  case 1
  show ?case by simp
next
  case (2 dt jan1 dow doy w w' ly)
  have "0 \<le> dow" using 2 day_of_week_range [of jan1] by simp
  moreover have "w \<le> 0" using 2 by (simp split: if_splits)
  then have "doy + dow - 1 < 7" using 2 tdiv_7_nonpos by simp
  ultimately have "doy < 8" by simp
  moreover have "365 \<le> day_of_year ly"
    using 2 by (auto simp: Date_ctor_def day_of_year_def CUMULATIVE_DAYS_def u8_def
        split: if_splits)
  ultimately show ?case using 2 by simp
qed

declare week_number.simps [simp del]


section \<open>datetime\_core.hpp: class DateTime\<close>

record DateTime =
  date_f :: Date
  time_f :: Time

definition DateTime_ctor ::
  "int \<Rightarrow> int \<Rightarrow> int \<Rightarrow> int \<Rightarrow> int \<Rightarrow> int \<Rightarrow> int \<Rightarrow> error + DateTime" where
  "DateTime_ctor year month day h mi s ns =
     (case Date_ctor year month day of
        Inl e \<Rightarrow> Inl e
      | Inr d \<Rightarrow>
          (case Time_ctor h mi s ns of
             Inl e \<Rightarrow> Inl e
           | Inr t \<Rightarrow> Inr \<lparr>date_f = d, time_f = t\<rparr>))"

definition from_unix_timestamp :: "int \<Rightarrow> error + DateTime" where
  "from_unix_timestamp seconds =
     (case Date_ctor 1970 1 1 of
        Inl e \<Rightarrow> Inl e
      | Inr epoch \<Rightarrow>
          (let days = tdiv seconds SECONDS_PER_DAY;
               remaining_seconds = tmod seconds SECONDS_PER_DAY;
               (days, remaining_seconds) =
                  (if remaining_seconds < 0
                   then (days - 1, remaining_seconds + SECONDS_PER_DAY)
                   else (days, remaining_seconds));
               epoch = Date_add_days epoch (s32 days)
           in case Time_from_seconds remaining_seconds of
                Inl e \<Rightarrow> Inl e
              | Inr time \<Rightarrow> Inr \<lparr>date_f = epoch, time_f = time\<rparr>))"

text \<open>In \<^verbatim>\<open>total_secs -= day_overflow * detail::SECONDS_PER_DAY\<close> the factors are
  \<^verbatim>\<open>int32_t\<close> and \<^verbatim>\<open>uint32_t\<close>: the product is computed in \<^verbatim>\<open>uint32_t\<close> and
  then widened to \<^verbatim>\<open>int64_t\<close> for the subtraction.\<close>

definition DateTime_add_seconds :: "DateTime \<Rightarrow> int \<Rightarrow> error + DateTime" where
  "DateTime_add_seconds dt seconds =
     (if seconds = 0 then Inr dt
      else
        (let total_secs = total_seconds (time_f dt) + seconds;
             (day_overflow, total_secs) =
                (if total_secs \<ge> SECONDS_PER_DAY
                 then (s32 (tdiv total_secs SECONDS_PER_DAY), tmod total_secs SECONDS_PER_DAY)
                 else if total_secs < 0
                 then (let day_overflow =
                             s32 (tdiv (total_secs - SECONDS_PER_DAY + 1) SECONDS_PER_DAY)
                       in (day_overflow,
                           total_secs - u32 (u32 day_overflow * SECONDS_PER_DAY)))
                 else (0, total_secs));
             date = (if day_overflow \<noteq> 0 then Date_add_days (date_f dt) day_overflow
                     else date_f dt);
             ns = nanosecond (time_f dt)
         in case Time_from_seconds total_secs of
              Inl e \<Rightarrow> Inl e
            | Inr t \<Rightarrow> Inr \<lparr>date_f = date, time_f = Time_add_nanoseconds t ns\<rparr>))"

definition DateTime_add_minutes :: "DateTime \<Rightarrow> int \<Rightarrow> error + DateTime" where
  "DateTime_add_minutes dt minutes = DateTime_add_seconds dt (minutes * SECONDS_PER_MINUTE)"

definition DateTime_add_hours :: "DateTime \<Rightarrow> int \<Rightarrow> error + DateTime" where
  "DateTime_add_hours dt hours = DateTime_add_seconds dt (hours * SECONDS_PER_HOUR)"

definition to_unix_timestamp :: "DateTime \<Rightarrow> error + int" where
  "to_unix_timestamp dt =
     (case Date_ctor 1970 1 1 of
        Inl e \<Rightarrow> Inl e
      | Inr epoch \<Rightarrow>
          (let day_diff = days_between (date_f dt) epoch
           in Inr (day_diff * SECONDS_PER_DAY + total_seconds (time_f dt))))"


section \<open>Day numbers: the calendar as a line of days\<close>

text \<open>The number of days from 0001-01-01 to a year, month and day, also for a day
  component that is not yet normalised into its month.  It is the quantity the two loops
  of \<^verbatim>\<open>Date::add_days\<close> keep unchanged.\<close>

definition leap_days_before :: "int \<Rightarrow> int" where
  "leap_days_before y = (y - 1) div 4 - (y - 1) div 100 + (y - 1) div 400"

definition month_offset :: "int \<Rightarrow> int \<Rightarrow> int" where
  "month_offset m y =
     CUMULATIVE_DAYS ! nat (m - 1) + (if m > 2 \<and> is_leap_year y then 1 else 0)"

definition day_number :: "int \<Rightarrow> int \<Rightarrow> int \<Rightarrow> int" where
  "day_number y m d = 365 * (y - 1) + leap_days_before y + month_offset m y + d - 1"

definition normal_date :: "int \<Rightarrow> int \<Rightarrow> int \<Rightarrow> bool" where
  "normal_date y m d \<longleftrightarrow> 1 \<le> m \<and> m \<le> 12 \<and> 1 \<le> d \<and> d \<le> days_in_month m y"

lemma div_pred_step:
  fixes y k :: int
  assumes "0 < k"
  shows "y div k = (y - 1) div k + (if y mod k = 0 then 1 else 0)"
proof -
  define q where "q = (y - 1) div k"
  define r where "r = (y - 1) mod k"
  have y: "y = k * q + (r + 1)" and r: "0 \<le> r" "r < k"
    using assms by (simp_all add: q_def r_def)
  have "y div k = q + (if y mod k = 0 then 1 else 0)"
  proof (cases "r + 1 = k")
    case True
    then have "y = k * (q + 1)" using y by (simp add: algebra_simps)
    then have "y div k = q + 1" "y mod k = 0" using assms by simp_all
    then show ?thesis by simp
  next
    case False
    then have lt: "r + 1 < k" using r by simp
    have "y div k = q" using y r lt by (intro int_div_pos_eq [of y k q "r + 1"]) simp_all
    moreover have "y mod k = r + 1" using y r lt by (intro int_mod_pos_eq [of y k q "r + 1"]) simp_all
    ultimately show ?thesis using r by simp
  qed
  then show ?thesis by (simp add: q_def)
qed

lemma mod_400_imp_100: "(y::int) mod 400 = 0 \<Longrightarrow> y mod 100 = 0"
proof -
  assume "y mod 400 = 0"
  then have "400 dvd y" by (simp add: mod_eq_0_iff_dvd)
  moreover have "(100::int) dvd 400" by simp
  ultimately have "100 dvd y" by (metis dvd_trans)
  then show ?thesis by (simp add: mod_eq_0_iff_dvd)
qed

lemma mod_100_imp_4: "(y::int) mod 100 = 0 \<Longrightarrow> y mod 4 = 0"
proof -
  assume "y mod 100 = 0"
  then have "100 dvd y" by (simp add: mod_eq_0_iff_dvd)
  moreover have "(4::int) dvd 100" by simp
  ultimately have "4 dvd y" by (metis dvd_trans)
  then show ?thesis by (simp add: mod_eq_0_iff_dvd)
qed
lemma is_leap_year_iff:
  "is_leap_year y \<longleftrightarrow> y mod 400 = 0 \<or> (y mod 4 = 0 \<and> y mod 100 \<noteq> 0)"
  by (simp add: is_leap_year_def tmod_eq_0_iff)

lemma leap_days_before_Suc:
  "leap_days_before (y + 1) = leap_days_before y + (if is_leap_year y then 1 else 0)"
proof -
  define a :: int where "a = (if y mod 4 = 0 then 1 else 0)"
  define b :: int where "b = (if y mod 100 = 0 then 1 else 0)"
  define c :: int where "c = (if y mod 400 = 0 then 1 else 0)"
  have "y div 4 = (y - 1) div 4 + a"
    unfolding a_def by (rule div_pred_step) simp
  moreover have "y div 100 = (y - 1) div 100 + b"
    unfolding b_def by (rule div_pred_step) simp
  moreover have "y div 400 = (y - 1) div 400 + c"
    unfolding c_def by (rule div_pred_step) simp
  ultimately have "leap_days_before (y + 1) = leap_days_before y + (a - b + c)"
    by (simp add: leap_days_before_def)
  moreover have "a - b + c = (if is_leap_year y then 1 else 0)"
    unfolding a_def b_def c_def is_leap_year_iff
    using mod_400_imp_100 [of y] mod_100_imp_4 [of y] by auto
  ultimately show ?thesis by simp
qed

lemma month_offset_cases:
  "1 \<le> m \<Longrightarrow> m \<le> 13 \<Longrightarrow> month_offset m y =
     (if m = 1 then 0 else if m = 2 then 31
      else (if is_leap_year y then 1 else 0) +
        (if m = 3 then 59 else if m = 4 then 90 else if m = 5 then 120 else if m = 6 then 151
         else if m = 7 then 181 else if m = 8 then 212 else if m = 9 then 243
         else if m = 10 then 273 else if m = 11 then 304 else if m = 12 then 334 else 365))"
proof -
  assume "1 \<le> m" "m \<le> 13"
  then have "m = 1 \<or> m = 2 \<or> m = 3 \<or> m = 4 \<or> m = 5 \<or> m = 6 \<or> m = 7
    \<or> m = 8 \<or> m = 9 \<or> m = 10 \<or> m = 11 \<or> m = 12 \<or> m = 13"
    by presburger
  then show ?thesis
    by (elim disjE) (simp_all add: month_offset_def CUMULATIVE_DAYS_def)
qed

lemma month_offset_Suc:
  "1 \<le> m \<Longrightarrow> m \<le> 12 \<Longrightarrow> month_offset (m + 1) y = month_offset m y + days_in_month m y"
proof -
  assume "1 \<le> m" "m \<le> 12"
  then have "m = 1 \<or> m = 2 \<or> m = 3 \<or> m = 4 \<or> m = 5 \<or> m = 6 \<or> m = 7
    \<or> m = 8 \<or> m = 9 \<or> m = 10 \<or> m = 11 \<or> m = 12"
    by presburger
  then show ?thesis
    by (elim disjE) (simp_all add: month_offset_cases days_in_month_cases)
qed

lemma month_offset_13: "month_offset 13 y = days_in_year y"
  by (simp add: month_offset_cases days_in_year_def)

lemma month_offset_1: "month_offset 1 y = 0"
  by (simp add: month_offset_cases)

lemma month_offset_mono:
  assumes "1 \<le> m" and "m \<le> m'" and "m' \<le> 13"
  shows "month_offset m y \<le> month_offset m' y"
  using assms(2,3)
proof (induction m' rule: int_ge_induct)
  case base
  show ?case by simp
next
  case (step i)
  then have "month_offset (i + 1) y = month_offset i y + days_in_month i y"
    using assms(1) by (simp add: month_offset_Suc)
  then show ?case using step days_in_month_nonneg [of i y] by simp
qed

definition year_start :: "int \<Rightarrow> int" where
  "year_start y = 365 * (y - 1) + leap_days_before y"

lemma year_start_Suc: "year_start (y + 1) = year_start y + days_in_year y"
  by (simp add: year_start_def leap_days_before_Suc days_in_year_def)

lemma year_start_mono:
  assumes "y \<le> y'"
  shows "year_start y \<le> year_start y'"
  using assms
proof (induction y' rule: int_ge_induct)
  case base
  show ?case by simp
next
  case (step i)
  then show ?case by (simp add: year_start_Suc days_in_year_def)
qed

lemma day_number_year_bounds:
  assumes "normal_date y m d"
  shows "year_start y \<le> day_number y m d" and "day_number y m d < year_start (y + 1)"
proof -
  have m: "1 \<le> m" "m \<le> 12" and d: "1 \<le> d" "d \<le> days_in_month m y"
    using assms by (simp_all add: normal_date_def)
  have "month_offset 1 y \<le> month_offset m y"
    using m by (intro month_offset_mono) simp_all
  then show "year_start y \<le> day_number y m d"
    using d by (simp add: day_number_def year_start_def month_offset_1)
  have "month_offset (m + 1) y \<le> month_offset 13 y"
    using m by (intro month_offset_mono) simp_all
  then have "month_offset m y + d \<le> days_in_year y"
    using m d by (simp add: month_offset_Suc month_offset_13)
  then show "day_number y m d < year_start (y + 1)"
    by (simp add: day_number_def year_start_Suc) (simp add: year_start_def)
qed

lemma day_number_inj:
  assumes "normal_date y m d" and "normal_date y' m' d'"
    and "day_number y m d = day_number y' m' d'"
  shows "y = y' \<and> m = m' \<and> d = d'"
proof -
  have yy: "y = y'"
  proof (rule ccontr)
    assume "y \<noteq> y'"
    then consider "y + 1 \<le> y'" | "y' + 1 \<le> y" by linarith
    then show False
    proof cases
      case 1
      then show False
        using year_start_mono [OF 1] day_number_year_bounds [OF assms(1)]
          day_number_year_bounds [OF assms(2)] assms(3) by linarith
    next
      case 2
      then show False
        using year_start_mono [OF 2] day_number_year_bounds [OF assms(1)]
          day_number_year_bounds [OF assms(2)] assms(3) by linarith
    qed
  qed
  have m: "1 \<le> m" "m \<le> 12" "1 \<le> d" "d \<le> days_in_month m y"
    and m': "1 \<le> m'" "m' \<le> 12" "1 \<le> d'" "d' \<le> days_in_month m' y"
    using assms yy by (simp_all add: normal_date_def)
  have eq: "month_offset m y + d = month_offset m' y + d'"
    using assms(3) yy by (simp add: day_number_def)
  have mm: "m = m'"
  proof (rule ccontr)
    assume "m \<noteq> m'"
    then consider "m + 1 \<le> m'" | "m' + 1 \<le> m" by linarith
    then show False
    proof cases
      case 1
      then have "month_offset (m + 1) y \<le> month_offset m' y"
        using m m' by (intro month_offset_mono) simp_all
      then show False using eq m m' by (simp add: month_offset_Suc)
    next
      case 2
      then have "month_offset (m' + 1) y \<le> month_offset m y"
        using m m' by (intro month_offset_mono) simp_all
      then show False using eq m m' by (simp add: month_offset_Suc)
    qed
  qed
  show ?thesis using yy mm eq by simp
qed




lemma day_number_forward_step:
  assumes "1 \<le> m" and "m \<le> 12"
  shows "day_number (if m + 1 > 12 then y + 1 else y) (if m + 1 > 12 then 1 else m + 1)
           (d - days_in_month m y) = day_number y m d"
proof (cases "m = 12")
  case True
  then show ?thesis
    by (simp add: day_number_def leap_days_before_Suc month_offset_cases days_in_month_cases)
next
  case False
  then show ?thesis
    using assms by (simp add: day_number_def month_offset_Suc)
qed

lemma add_days_forward_spec:
  assumes "1 \<le> m" and "m \<le> 12" and "add_days_forward y m d = (y', m', d')"
  shows "day_number y' m' d' = day_number y m d \<and> 1 \<le> m' \<and> m' \<le> 12
         \<and> d' \<le> days_in_month m' y' \<and> (1 \<le> d \<longrightarrow> 1 \<le> d')"
  using assms
proof (induction y m d rule: add_days_forward.induct)
  case (1 y m d)
  show ?case
  proof (cases "d > days_in_month m y")
    case False
    then show ?thesis
      using "1.prems" by (simp add: add_days_forward.simps [of y m d])
  next
    case True
    let ?d = "d - days_in_month m y"
    have pos: "1 \<le> ?d" using True by simp
    show ?thesis
    proof (cases "m + 1 > 12")
      case wrap: True
      then have m12: "m = 12" using "1.prems" by simp
      have "add_days_forward (y + 1) 1 ?d = (y', m', d')"
        using "1.prems"(3) True wrap by (simp add: add_days_forward.simps [of y m d])
      then have "day_number y' m' d' = day_number (y + 1) 1 ?d \<and> 1 \<le> m' \<and> m' \<le> 12
         \<and> d' \<le> days_in_month m' y' \<and> (1 \<le> ?d \<longrightarrow> 1 \<le> d')"
        using "1.IH"(1) [OF True refl refl wrap] by simp
      then show ?thesis
        using day_number_forward_step [of m y d] "1.prems"(1,2) wrap pos by simp
    next
      case nowrap: False
      have "add_days_forward y (m + 1) ?d = (y', m', d')"
        using "1.prems"(3) True nowrap by (simp add: add_days_forward.simps [of y m d])
      then have "day_number y' m' d' = day_number y (m + 1) ?d \<and> 1 \<le> m' \<and> m' \<le> 12
         \<and> d' \<le> days_in_month m' y' \<and> (1 \<le> ?d \<longrightarrow> 1 \<le> d')"
        using "1.IH"(2) [OF True refl refl nowrap] "1.prems"(1) nowrap by simp
      then show ?thesis
        using day_number_forward_step [of m y d] "1.prems"(1,2) nowrap pos by simp
    qed
  qed
qed



lemma day_number_backward_step:
  assumes "1 \<le> m" and "m \<le> 12"
  shows "day_number (if m - 1 < 1 then y - 1 else y) (if m - 1 < 1 then 12 else m - 1)
           (d + days_in_month (if m - 1 < 1 then 12 else m - 1) (if m - 1 < 1 then y - 1 else y))
         = day_number y m d"
proof (cases "m = 1")
  case True
  then show ?thesis
    using day_number_forward_step [of 12 "y - 1" "d + days_in_month 12 (y - 1)"] by simp
next
  case False
  then show ?thesis
    using assms day_number_forward_step [of "m - 1" y "d + days_in_month (m - 1) y"] by simp
qed

lemma add_days_backward_spec:
  assumes "1 \<le> m" and "m \<le> 12" and "add_days_backward y m d = (y', m', d')"
  shows "day_number y' m' d' = day_number y m d \<and> 1 \<le> m' \<and> m' \<le> 12
         \<and> 1 \<le> d' \<and> (d \<le> days_in_month m y \<longrightarrow> d' \<le> days_in_month m' y')"
  using assms
proof (induction y m d rule: add_days_backward.induct)
  case (1 y m d)
  show ?case
  proof (cases "d < 1")
    case False
    then show ?thesis
      using "1.prems" by (simp add: add_days_backward.simps [of y m d] Let_def)
  next
    case True
    show ?thesis
    proof (cases "m - 1 < 1")
      case wrap: True
      let ?d = "d + days_in_month 12 (y - 1)"
      have le: "?d \<le> days_in_month 12 (y - 1)" using True by simp
      have "add_days_backward (y - 1) 12 ?d = (y', m', d')"
        using "1.prems"(3) True wrap by (simp add: add_days_backward.simps [of y m d] Let_def)
      then have "day_number y' m' d' = day_number (y - 1) 12 ?d \<and> 1 \<le> m' \<and> m' \<le> 12
         \<and> 1 \<le> d' \<and> (?d \<le> days_in_month 12 (y - 1) \<longrightarrow> d' \<le> days_in_month m' y')"
        using "1.IH"(1) [OF True refl wrap] by simp
      then show ?thesis
        using day_number_backward_step [of m y d] "1.prems"(1,2) wrap le by simp
    next
      case nowrap: False
      let ?d = "d + days_in_month (m - 1) y"
      have le: "?d \<le> days_in_month (m - 1) y" using True by simp
      have "add_days_backward y (m - 1) ?d = (y', m', d')"
        using "1.prems"(3) True nowrap by (simp add: add_days_backward.simps [of y m d] Let_def)
      then have "day_number y' m' d' = day_number y (m - 1) ?d \<and> 1 \<le> m' \<and> m' \<le> 12
         \<and> 1 \<le> d' \<and> (?d \<le> days_in_month (m - 1) y \<longrightarrow> d' \<le> days_in_month m' y')"
        using "1.IH"(2) [OF True refl nowrap] "1.prems"(2) nowrap by simp
      then show ?thesis
        using day_number_backward_step [of m y d] "1.prems"(1,2) nowrap le by simp
    qed
  qed
qed

definition add_days_steps :: "int \<Rightarrow> int \<Rightarrow> int \<Rightarrow> int \<times> int \<times> int" where
  "add_days_steps y m d =
     (let (y, m, d) = add_days_forward y m d in add_days_backward y m d)"

lemma add_days_steps_spec:
  assumes "1 \<le> m" and "m \<le> 12" and "add_days_steps y m d = (y', m', d')"
  shows "normal_date y' m' d'" and "day_number y' m' d' = day_number y m d"
proof -
  obtain y1 m1 d1 where f: "add_days_forward y m d = (y1, m1, d1)"
    by (metis prod_cases3)
  then have b: "add_days_backward y1 m1 d1 = (y', m', d')"
    using assms(3) by (simp add: add_days_steps_def)
  have 1: "day_number y1 m1 d1 = day_number y m d" "1 \<le> m1" "m1 \<le> 12"
    "d1 \<le> days_in_month m1 y1"
    using add_days_forward_spec [OF assms(1,2) f] by simp_all
  have 2: "day_number y' m' d' = day_number y1 m1 d1" "1 \<le> m'" "m' \<le> 12" "1 \<le> d'"
    "d' \<le> days_in_month m' y'"
    using add_days_backward_spec [OF 1(2,3) b] 1(4) by simp_all
  show "normal_date y' m' d'" using 2 by (simp add: normal_date_def)
  show "day_number y' m' d' = day_number y m d" using 1 2 by simp
qed


lemma is_valid_date_iff:
  "is_valid_date y m d \<longleftrightarrow> 1 \<le> y \<and> y \<le> 9999 \<and> normal_date y m d"
proof (cases "1 \<le> m \<and> m \<le> 12")
  case True
  then have "u32 m = m" by (simp add: u32_def)
  then show ?thesis
    using True
    by (auto simp: is_valid_date_def is_valid_year_def is_valid_month_def is_valid_day_def
        normal_date_def)
next
  case False
  then have "days_in_month m y = 0" by (auto simp: days_in_month_def)
  then show ?thesis
    using False
    by (auto simp: is_valid_date_def is_valid_year_def is_valid_month_def is_valid_day_def
        normal_date_def)
qed

lemma normal_date_day_le_31: "normal_date y m d \<Longrightarrow> d \<le> 31"
  by (auto simp: normal_date_def days_in_month_cases split: if_splits)

lemma stored_fields:
  assumes "is_valid_date y m d"
  shows "u16 y = y" and "u8 m = m" and "u8 d = d"
  using assms normal_date_day_le_31 [of y m d]
  by (simp_all add: is_valid_date_iff normal_date_def u16_def u8_def)

lemma Date_add_days_unfold:
  "Date_add_days dt days =
     (if days = 0 then dt
      else case add_days_steps (year_f dt) (month_f dt) (day_f dt + days) of
        (y, m, d) \<Rightarrow>
          if is_valid_date y m d then dt\<lparr>year_f := y, month_f := m, day_f := d\<rparr> else dt)"
  by (auto simp: Date_add_days_def add_days_steps_def Let_def stored_fields split: prod.splits)

lemma year_start_1: "year_start 1 = 0"
  by (simp add: year_start_def leap_days_before_def)

lemma year_start_10000: "year_start 10000 = 3652059"
  by (simp add: year_start_def leap_days_before_def)

lemma year_in_range:
  assumes "normal_date y m d" and "0 \<le> day_number y m d" and "day_number y m d \<le> 3652058"
  shows "1 \<le> y \<and> y \<le> 9999"
proof -
  have "\<not> y + 1 \<le> 1"
    using year_start_mono [of "y + 1" 1] day_number_year_bounds(2) [OF assms(1)] assms(2)
    by (auto simp: year_start_1)
  moreover have "\<not> 10000 \<le> y"
    using year_start_mono [of 10000 y] day_number_year_bounds(1) [OF assms(1)] assms(3)
    by (auto simp: year_start_10000)
  ultimately show ?thesis by simp
qed

definition date_number :: "Date \<Rightarrow> int" where
  "date_number dt = day_number (year_f dt) (month_f dt) (day_f dt)"

definition valid_Date :: "Date \<Rightarrow> bool" where
  "valid_Date dt \<longleftrightarrow> is_valid_date (year_f dt) (month_f dt) (day_f dt)"

lemma Date_add_days_in_range:
  assumes "valid_Date v" and "0 \<le> date_number v + n" and "date_number v + n \<le> 3652058"
  shows "valid_Date (Date_add_days v n)" and "date_number (Date_add_days v n) = date_number v + n"
proof -
  have v: "1 \<le> month_f v" "month_f v \<le> 12"
    using assms(1) by (simp_all add: valid_Date_def is_valid_date_iff normal_date_def)
  obtain y m d where s: "add_days_steps (year_f v) (month_f v) (day_f v + n) = (y, m, d)"
    by (metis prod_cases3)
  have nd: "normal_date y m d"
    and dn: "day_number y m d = day_number (year_f v) (month_f v) (day_f v + n)"
    using add_days_steps_spec [OF v s] by simp_all
  have dn': "day_number y m d = date_number v + n"
    using dn by (simp add: day_number_def date_number_def)
  have "1 \<le> y \<and> y \<le> 9999"
    using year_in_range [OF nd] assms(2,3) dn' by simp
  then have ok: "is_valid_date y m d" using nd by (simp add: is_valid_date_iff)
  show "valid_Date (Date_add_days v n)"
    using assms(1) ok s by (simp add: Date_add_days_unfold valid_Date_def)
  show "date_number (Date_add_days v n) = date_number v + n"
    using ok s dn' by (simp add: Date_add_days_unfold date_number_def)
qed

lemma Date_add_days_valid:
  assumes "valid_Date v"
  shows "valid_Date (Date_add_days v n)"
  using assms by (auto simp: Date_add_days_unfold valid_Date_def split: prod.splits)

lemma date_number_inj:
  assumes "valid_Date v" and "valid_Date w" and "date_number v = date_number w"
  shows "v = (w :: Date)"
proof -
  have "year_f v = year_f w \<and> month_f v = month_f w \<and> day_f v = day_f w"
    using assms by (intro day_number_inj) (simp_all add: valid_Date_def is_valid_date_iff date_number_def)
  then show ?thesis by simp
qed


lemma days_since_epoch_eq: "1 \<le> y \<Longrightarrow> days_since_epoch y = year_start y"
  by (simp add: days_since_epoch_def year_start_def leap_days_before_def tdiv_nonneg Let_def)

lemma days_between_eq:
  assumes "1 \<le> year_f v" and "1 \<le> year_f w"
  shows "days_between v w = date_number v - date_number w"
  using assms
  by (simp add: days_between_def days_since_epoch_eq day_of_year_def date_number_def
      day_number_def month_offset_def year_start_def Let_def)

lemma date_number_range:
  assumes "valid_Date v"
  shows "0 \<le> date_number v" and "date_number v \<le> 3652058"
proof -
  have nd: "normal_date (year_f v) (month_f v) (day_f v)"
    and y: "1 \<le> year_f v" "year_f v + 1 \<le> 10000"
    using assms by (simp_all add: valid_Date_def is_valid_date_iff)
  show "0 \<le> date_number v"
    using day_number_year_bounds(1) [OF nd] year_start_mono [OF y(1)]
    by (simp add: date_number_def year_start_1)
  show "date_number v \<le> 3652058"
    using day_number_year_bounds(2) [OF nd] year_start_mono [OF y(2)]
    by (simp add: date_number_def year_start_10000)
qed


section \<open>Claims about Date::add\_days\<close>

text \<open>C3, as stated, fails at the upper end of the calendar: adding one day to 9999-12-31
  steps to year 10000, the guard of \<^verbatim>\<open>add_days\<close> leaves the date unchanged, and
  subtracting the day again ends on 9999-12-30.\<close>

theorem add_days_inverse_counterexample:
  "valid_Date \<lparr>year_f = 9999, month_f = 12, day_f = 31\<rparr> \<and>
   Date_add_days (Date_add_days \<lparr>year_f = 9999, month_f = 12, day_f = 31\<rparr> 1) (- 1)
     \<noteq> \<lparr>year_f = 9999, month_f = 12, day_f = 31\<rparr>"
  by code_simp

text \<open>C3 (amended): for every valid Date v and every integer n such that the day n days
  from v lies between 0001-01-01 and 9999-12-31, v.add\_days(n).add\_days(-n) == v.  The
  two hypotheses on n measure the distance of v from both ends of the calendar with
  \<^verbatim>\<open>days_between\<close>; they hold for spans of any length inside the calendar.\<close>

theorem add_days_inverse_in_range:
  assumes "valid_Date v"
    and "0 \<le> days_between v \<lparr>year_f = 1, month_f = 1, day_f = 1\<rparr> + n"
    and "n \<le> days_between \<lparr>year_f = 9999, month_f = 12, day_f = 31\<rparr> v"
  shows "Date_add_days (Date_add_days v n) (- n) = v"
proof -
  have y: "1 \<le> year_f v"
    using assms(1) by (simp add: valid_Date_def is_valid_date_iff)
  have lo: "date_number \<lparr>year_f = 1, month_f = 1, day_f = 1\<rparr> = 0"
    by (simp add: date_number_def day_number_def month_offset_cases leap_days_before_def)
  have hi: "date_number \<lparr>year_f = 9999, month_f = 12, day_f = 31\<rparr> = 3652058"
    by (simp add: date_number_def day_number_def month_offset_cases leap_days_before_def
        is_leap_year_iff)
  have r: "0 \<le> date_number v + n" "date_number v + n \<le> 3652058"
    using assms(2,3) y by (simp_all add: days_between_eq lo hi)
  let ?w = "Date_add_days v n"
  have w: "valid_Date ?w" "date_number ?w = date_number v + n"
    using Date_add_days_in_range [OF assms(1) r] by simp_all
  have r': "0 \<le> date_number ?w + - n" "date_number ?w + - n \<le> 3652058"
    using w(2) date_number_range [OF assms(1)] by simp_all
  have "valid_Date (Date_add_days ?w (- n))"
    and "date_number (Date_add_days ?w (- n)) = date_number v"
    using Date_add_days_in_range [OF w(1) r'] w(2) by simp_all
  then show ?thesis using assms(1) by (intro date_number_inj)
qed

text \<open>The amended C3 at 2024-02-29 and n = 1000, a span of many months across a leap
  day.\<close>

theorem add_days_inverse_in_range_witness:
  "valid_Date \<lparr>year_f = 2024, month_f = 2, day_f = 29\<rparr> \<and>
   0 \<le> days_between \<lparr>year_f = 2024, month_f = 2, day_f = 29\<rparr>
          \<lparr>year_f = 1, month_f = 1, day_f = 1\<rparr> + 1000 \<and>
   1000 \<le> days_between \<lparr>year_f = 9999, month_f = 12, day_f = 31\<rparr>
          \<lparr>year_f = 2024, month_f = 2, day_f = 29\<rparr> \<and>
   Date_add_days \<lparr>year_f = 2024, month_f = 2, day_f = 29\<rparr> 1000
     = \<lparr>year_f = 2026, month_f = 11, day_f = 25\<rparr> \<and>
   Date_add_days (Date_add_days \<lparr>year_f = 2024, month_f = 2, day_f = 29\<rparr> 1000) (- 1000)
     = \<lparr>year_f = 2024, month_f = 2, day_f = 29\<rparr>"
proof -
  have h1: "valid_Date \<lparr>year_f = 2024, month_f = 2, day_f = 29\<rparr>"
    by code_simp
  have h2: "0 \<le> days_between \<lparr>year_f = 2024, month_f = 2, day_f = 29\<rparr>
          \<lparr>year_f = 1, month_f = 1, day_f = 1\<rparr> + 1000"
    by code_simp
  have h3: "1000 \<le> days_between \<lparr>year_f = 9999, month_f = 12, day_f = 31\<rparr>
          \<lparr>year_f = 2024, month_f = 2, day_f = 29\<rparr>"
    by code_simp
  have h4: "Date_add_days \<lparr>year_f = 2024, month_f = 2, day_f = 29\<rparr> 1000
     = \<lparr>year_f = 2026, month_f = 11, day_f = 25\<rparr>"
    by code_simp
  show ?thesis
    using add_days_inverse_in_range [OF h1 h2 h3] h1 h2 h3 h4 by simp
qed


text \<open>C9: for every valid Date and every n (an \<^verbatim>\<open>int32_t\<close> whose sum with the day does
  not overflow) for which the day-stepping normalization of add\_days(n) ends at a year
  outside 1..9999, the Date is left unchanged; and after any add\_days call the stored
  triple is a valid date with year in 1..9999.\<close>

theorem add_days_out_of_range_unchanged:
  assumes "valid_Date v"
    and "- 2147483648 \<le> n" and "day_f v + n \<le> 2147483647"
  shows "valid_Date (Date_add_days v n) \<and>
    (\<forall>y m d. add_days_steps (year_f v) (month_f v) (day_f v + n) = (y, m, d)
        \<and> (y < 1 \<or> 9999 < y) \<longrightarrow> Date_add_days v n = v)"
proof -
  have "Date_add_days v n = v"
    if "add_days_steps (year_f v) (month_f v) (day_f v + n) = (y, m, d)"
      and "y < 1 \<or> 9999 < y" for y m d
    using that by (auto simp: Date_add_days_unfold is_valid_date_iff)
  then show ?thesis using Date_add_days_valid [OF assms(1)] by blast
qed

text \<open>C9 at its own example, Date(9999,12,31).add\_days(1).\<close>

theorem add_days_out_of_range_unchanged_witness:
  "valid_Date \<lparr>year_f = 9999, month_f = 12, day_f = 31\<rparr> \<and>
   add_days_steps 9999 12 (31 + 1) = (10000, 1, 1) \<and>
   Date_add_days \<lparr>year_f = 9999, month_f = 12, day_f = 31\<rparr> 1
     = \<lparr>year_f = 9999, month_f = 12, day_f = 31\<rparr> \<and>
   valid_Date (Date_add_days \<lparr>year_f = 9999, month_f = 12, day_f = 31\<rparr> 1)"
proof -
  have h1: "valid_Date \<lparr>year_f = 9999, month_f = 12, day_f = 31\<rparr>"
    by code_simp
  have h2: "add_days_steps 9999 12 (31 + 1) = (10000, 1, 1)"
    by code_simp
  have h3: "(- 2147483648 :: int) \<le> 1"
    and h4: "day_f \<lparr>year_f = 9999, month_f = 12, day_f = 31\<rparr> + 1 \<le> 2147483647"
    by simp_all
  show ?thesis
    using add_days_out_of_range_unchanged [OF h1 h3 h4] h1 h2 by simp
qed


section \<open>Claims about Date::add\_months and Date::add\_years\<close>

text \<open>C5: arithmetic never raises and, in particular, an add\_months or add\_years call whose
  decomposed year falls below 1 or above 9999 clamps the year and produces a valid Date
  rather than leaving the value unchanged.  The code does so above 9999 (last conjunct),
  but below year 1 the truncating \<^verbatim>\<open>%\<close> yields a month below 1, the clamped triple
  fails \<^verbatim>\<open>is_valid_date\<close>, and the Date stays as it was: Date(1,3,15).add\_months(-15)
  has month index -13, which decomposes to December of year -1 and would clamp to
  Date(1,12,15).\<close>

theorem add_months_below_year_1_unchanged:
  "valid_Date \<lparr>year_f = 1, month_f = 3, day_f = 15\<rparr> \<and>
   Date_add_months \<lparr>year_f = 1, month_f = 3, day_f = 15\<rparr> (- 15)
     = \<lparr>year_f = 1, month_f = 3, day_f = 15\<rparr> \<and>
   Date_add_months \<lparr>year_f = 9999, month_f = 6, day_f = 15\<rparr> 7
     = \<lparr>year_f = 9999, month_f = 1, day_f = 15\<rparr>"
  by code_simp


section \<open>Claims about Time arithmetic\<close>

text \<open>C6: Time::add\_seconds and its minute, hour, millisecond and nanosecond variants
  reduce modulo one day with floor-modulo semantics, so that a negative delta wraps to the
  previous day's time of day.  Time(0,0,0).add\_seconds(-1) is 23:59:59 as claimed, but
  add\_nanoseconds and add\_milliseconds take the remainder in \<^verbatim>\<open>uint64_t\<close>:
  Time(0,0,0).add\_nanoseconds(-1) is 23:34:33.709551615, not 23:59:59.999999999, and
  Time(0,0,0).add\_milliseconds(-1) is 23:34:33.708551616.\<close>

theorem Time_add_nanoseconds_negative_wrap:
  "Time_ctor 0 0 0 0 = Inr \<lparr>total_nanos = 0\<rparr> \<and>
   Time_add_nanoseconds \<lparr>total_nanos = 0\<rparr> (- 1) = \<lparr>total_nanos = 84873709551615\<rparr> \<and>
   Time_ctor 23 34 33 709551615 = Inr \<lparr>total_nanos = 84873709551615\<rparr> \<and>
   Time_ctor 23 59 59 999999999 = Inr \<lparr>total_nanos = 86399999999999\<rparr> \<and>
   Time_add_milliseconds \<lparr>total_nanos = 0\<rparr> (- 1) = \<lparr>total_nanos = 84873708551616\<rparr> \<and>
   Time_add_seconds \<lparr>total_nanos = 0\<rparr> (- 1) = \<lparr>total_nanos = 86399000000000\<rparr> \<and>
   Time_ctor 23 59 59 0 = Inr \<lparr>total_nanos = 86399000000000\<rparr>"
  by code_simp


section \<open>Claims about DateTime arithmetic\<close>

text \<open>C1: DateTime::add\_seconds carries whole days into the date by floor division and
  sets the time to the non-negative remainder, also for a negative delta that crosses
  midnight backward.  One second before 2024-01-01T00:00:00 the date is decremented as
  claimed, but the time is 17:31:43 instead of 23:59:59: the product
  \<^verbatim>\<open>day_overflow * detail::SECONDS_PER_DAY\<close> is computed in \<^verbatim>\<open>uint32_t\<close>, which
  shifts the remainder by 2 ^ 32 seconds, that is by 23296 seconds modulo one day.\<close>

theorem DateTime_add_seconds_backward_midnight:
  "DateTime_ctor 2024 1 1 0 0 0 0
     = Inr \<lparr>date_f = \<lparr>year_f = 2024, month_f = 1, day_f = 1\<rparr>,
            time_f = \<lparr>total_nanos = 0\<rparr>\<rparr> \<and>
   DateTime_add_seconds \<lparr>date_f = \<lparr>year_f = 2024, month_f = 1, day_f = 1\<rparr>,
                         time_f = \<lparr>total_nanos = 0\<rparr>\<rparr> (- 1)
     = DateTime_ctor 2023 12 31 17 31 43 0 \<and>
   DateTime_add_seconds \<lparr>date_f = \<lparr>year_f = 2024, month_f = 1, day_f = 1\<rparr>,
                         time_f = \<lparr>total_nanos = 0\<rparr>\<rparr> (- 1)
     \<noteq> DateTime_ctor 2023 12 31 23 59 59 0"
  by code_simp

text \<open>The forward example of the specification holds:
  DateTime(2024,12,31,23,30,0).add\_hours(2) == DateTime(2025,1,1,1,30,0).\<close>

lemma DateTime_add_hours_forward_example:
  "DateTime_ctor 2024 12 31 23 30 0 0
     = Inr \<lparr>date_f = \<lparr>year_f = 2024, month_f = 12, day_f = 31\<rparr>,
            time_f = \<lparr>total_nanos = 84600000000000\<rparr>\<rparr> \<and>
   DateTime_add_hours \<lparr>date_f = \<lparr>year_f = 2024, month_f = 12, day_f = 31\<rparr>,
                       time_f = \<lparr>total_nanos = 84600000000000\<rparr>\<rparr> 2
     = DateTime_ctor 2025 1 1 1 30 0 0"
  by code_simp


section \<open>Claims about Date::week\_number\<close>

text \<open>The week number as the specification words it (section 4.3 and the glossary), next
  to the one of the source: the weekday by Zeller's congruence, converted from Zeller's
  0 = Saturday to 0 = Monday .. 6 = Sunday; the week from the day of the year and the
  weekday of January 1; week 0 folded into the last week of the previous year, and week 53
  folded into week 1 when the next January 1 falls on Thursday or earlier.\<close>

definition spec_day_of_week :: "int \<Rightarrow> int \<Rightarrow> int \<Rightarrow> int" where
  "spec_day_of_week y m d =
     (let (m, y) = (if m < 3 then (m + 12, y - 1) else (m, y));
          k = y mod 100;
          j = y div 100;
          h = (d + (13 * (m + 1)) div 5 + k + k div 4 + j div 4 - 2 * j) mod 7
      in (h + 5) mod 7)"

definition spec_week_index :: "int \<Rightarrow> int \<Rightarrow> int" where
  "spec_week_index y doy =
     (let dow_jan1 = spec_day_of_week y 1 1
      in (doy + dow_jan1 - 1) div 7 + (if dow_jan1 \<le> 3 then 1 else 0))"

definition spec_fold_53 :: "int \<Rightarrow> int \<Rightarrow> int" where
  "spec_fold_53 y week = (if week = 53 \<and> spec_day_of_week (y + 1) 1 1 \<le> 3 then 1 else week)"

definition spec_week_number :: "Date \<Rightarrow> int" where
  "spec_week_number dt =
     (let y = year_f dt; week = spec_week_index y (day_of_year dt)
      in if week = 0
         then spec_fold_53 (y - 1) (spec_week_index (y - 1) (days_in_year (y - 1)))
         else spec_fold_53 y week)"

text \<open>C7: for every valid Date, week\_number returns the ISO 8601 week number.  The two
  examples of the claim hold (last two conjuncts), but \<^verbatim>\<open>day_of_week\<close> converts
  Zeller's result with \<^verbatim>\<open>(h + 6) % 7\<close>, which numbers the days from Sunday, not from
  Monday as its documentation and the \<^verbatim>\<open>static_assert(day_of_week == 2)\<close> of the
  examples say: Wednesday 2024-12-25 gets 3.  The weeks of \<^verbatim>\<open>week_number\<close> therefore
  run from Sunday to Saturday: Sunday 2024-01-07 is reported in week 2 (ISO: week 1), and
  Thursday 2026-01-01 in week 53 (ISO: week 1).\<close>

theorem week_number_not_iso:
  "valid_Date \<lparr>year_f = 2024, month_f = 1, day_f = 7\<rparr> \<and>
   week_number \<lparr>year_f = 2024, month_f = 1, day_f = 7\<rparr> = Inr 2 \<and>
   spec_week_number \<lparr>year_f = 2024, month_f = 1, day_f = 7\<rparr> = 1 \<and>
   week_number \<lparr>year_f = 2026, month_f = 1, day_f = 1\<rparr> = Inr 53 \<and>
   spec_week_number \<lparr>year_f = 2026, month_f = 1, day_f = 1\<rparr> = 1 \<and>
   day_of_week \<lparr>year_f = 2024, month_f = 12, day_f = 25\<rparr> = 3 \<and>
   spec_day_of_week 2024 12 25 = 2 \<and>
   week_number \<lparr>year_f = 2024, month_f = 12, day_f = 31\<rparr> = Inr 1 \<and>
   week_number \<lparr>year_f = 2025, month_f = 1, day_f = 1\<rparr> = Inr 1"
  by code_simp



section \<open>Claims about construction\<close>

text \<open>The range of an \<^verbatim>\<open>int\<close> argument, and the Gregorian month length stated
  independently of the source's table.\<close>

definition is_int32 :: "int \<Rightarrow> bool" where
  "is_int32 x \<longleftrightarrow> - (2 ^ 31) \<le> x \<and> x < 2 ^ 31"

definition gregorian_leap :: "int \<Rightarrow> bool" where
  "gregorian_leap y \<longleftrightarrow> 400 dvd y \<or> (4 dvd y \<and> \<not> 100 dvd y)"

definition gregorian_month_length :: "int \<Rightarrow> int \<Rightarrow> int" where
  "gregorian_month_length y m =
     (if m = 2 then (if gregorian_leap y then 29 else 28)
      else if m = 4 \<or> m = 6 \<or> m = 9 \<or> m = 11 then 30 else 31)"

lemma is_leap_year_gregorian: "is_leap_year y \<longleftrightarrow> gregorian_leap y"
  by (simp add: is_leap_year_iff gregorian_leap_def mod_eq_0_iff_dvd)

lemma days_in_month_gregorian:
  "1 \<le> m \<Longrightarrow> m \<le> 12 \<Longrightarrow> days_in_month m y = gregorian_month_length y m"
  by (simp add: days_in_month_cases gregorian_month_length_def is_leap_year_gregorian)

lemma is_valid_date_gregorian:
  "is_valid_date y m d \<longleftrightarrow>
     1 \<le> y \<and> y \<le> 9999 \<and> 1 \<le> m \<and> m \<le> 12 \<and> 1 \<le> d \<and> d \<le> gregorian_month_length y m"
  using days_in_month_gregorian [of m y]
  by (auto simp: is_valid_date_iff normal_date_def)

lemma Date_ctor_cases:
  "Date_ctor y m d =
     (if 1 \<le> y \<and> y \<le> 9999 \<and> 1 \<le> m \<and> m \<le> 12 \<and> 1 \<le> d \<and> d \<le> gregorian_month_length y m
      then Inr \<lparr>year_f = y, month_f = m, day_f = d\<rparr> else Inl Invalid_date)"
proof (cases "is_valid_date y m d")
  case True
  then show ?thesis
    using stored_fields [OF True] by (simp add: Date_ctor_def is_valid_date_gregorian)
next
  case False
  then show ?thesis
    by (simp add: Date_ctor_def is_valid_date_gregorian)
qed

lemma u32_id: "0 \<le> x \<Longrightarrow> is_int32 x \<Longrightarrow> u32 x = x"
  by (simp add: u32_def is_int32_def)

lemma is_valid_time_iff:
  assumes "is_int32 h" and "is_int32 mi" and "is_int32 s" and "is_int32 ns"
  shows "is_valid_time h mi s ns \<longleftrightarrow>
     0 \<le> h \<and> h < 24 \<and> 0 \<le> mi \<and> mi < 60 \<and> 0 \<le> s \<and> s < 60 \<and> 0 \<le> ns \<and> ns < 1000000000"
  using assms u32_id [of h] u32_id [of mi] u32_id [of s]
  by (auto simp: is_valid_time_def is_valid_hour_def is_valid_minute_def is_valid_second_def
      is_valid_nanosecond_def s32_def)

lemma Time_ctor_cases:
  assumes "is_int32 h" and "is_int32 mi" and "is_int32 s" and "is_int32 ns"
  shows "Time_ctor h mi s ns =
     (if 0 \<le> h \<and> h < 24 \<and> 0 \<le> mi \<and> mi < 60 \<and> 0 \<le> s \<and> s < 60 \<and> 0 \<le> ns \<and> ns < 1000000000
      then Inr \<lparr>total_nanos = h * 3600000000000 + mi * 60000000000 + s * 1000000000 + ns\<rparr>
      else Inl Invalid_time_components)"
proof (cases "is_valid_time h mi s ns")
  case False
  then show ?thesis
    using is_valid_time_iff [OF assms] by (simp add: Time_ctor_def)
next
  case True
  then have r: "0 \<le> h" "h < 24" "0 \<le> mi" "mi < 60" "0 \<le> s" "s < 60" "0 \<le> ns" "ns < 1000000000"
    using is_valid_time_iff [OF assms] by simp_all
  have "u64 h = h" "u64 mi = mi" "u64 s = s" "u64 ns = ns"
    using r by (simp_all add: u64_def)
  moreover have "u64 (h * 3600000000000) = h * 3600000000000"
    "u64 (mi * 60000000000) = mi * 60000000000" "u64 (s * 1000000000) = s * 1000000000"
    using r by (simp_all add: u64_def)
  moreover have "u64 (h * 3600000000000 + mi * 60000000000) = h * 3600000000000 + mi * 60000000000"
    using r by (simp add: u64_def)
  moreover have "u64 (h * 3600000000000 + mi * 60000000000 + s * 1000000000)
    = h * 3600000000000 + mi * 60000000000 + s * 1000000000"
    using r by (simp add: u64_def)
  moreover have "u64 (h * 3600000000000 + mi * 60000000000 + s * 1000000000 + ns)
    = h * 3600000000000 + mi * 60000000000 + s * 1000000000 + ns"
    using r by (simp add: u64_def)
  ultimately show ?thesis
    using True r by (simp add: Time_ctor_def)
qed


text \<open>C8: construction raises the single exception of the library
  (\<^verbatim>\<open>std::out_of_range\<close>) exactly when a component is outside its range or the day does
  not exist in the month and year, and succeeds with the components stored otherwise.\<close>

theorem construction_validation:
  assumes "is_int32 h" and "is_int32 mi" and "is_int32 s" and "is_int32 ns"
  shows
    "Date_ctor y m d =
       (if 1 \<le> y \<and> y \<le> 9999 \<and> 1 \<le> m \<and> m \<le> 12 \<and> 1 \<le> d \<and> d \<le> gregorian_month_length y m
        then Inr \<lparr>year_f = y, month_f = m, day_f = d\<rparr> else Inl Invalid_date) \<and>
     Time_ctor h mi s ns =
       (if 0 \<le> h \<and> h < 24 \<and> 0 \<le> mi \<and> mi < 60 \<and> 0 \<le> s \<and> s < 60 \<and> 0 \<le> ns \<and> ns < 1000000000
        then Inr \<lparr>total_nanos = h * 3600000000000 + mi * 60000000000 + s * 1000000000 + ns\<rparr>
        else Inl Invalid_time_components) \<and>
     DateTime_ctor y m d h mi s ns =
       (if 1 \<le> y \<and> y \<le> 9999 \<and> 1 \<le> m \<and> m \<le> 12 \<and> 1 \<le> d \<and> d \<le> gregorian_month_length y m
        then if 0 \<le> h \<and> h < 24 \<and> 0 \<le> mi \<and> mi < 60 \<and> 0 \<le> s \<and> s < 60 \<and> 0 \<le> ns \<and> ns < 1000000000
          then Inr \<lparr>date_f = \<lparr>year_f = y, month_f = m, day_f = d\<rparr>,
                    time_f = \<lparr>total_nanos =
                      h * 3600000000000 + mi * 60000000000 + s * 1000000000 + ns\<rparr>\<rparr>
          else Inl Invalid_time_components
        else Inl Invalid_date)"
  unfolding DateTime_ctor_def Time_ctor_cases [OF assms] Date_ctor_cases by simp

text \<open>C8 at the examples of the specification, Date(2023,2,29) and Time(24,0,0), and at
  two valid inputs.\<close>

theorem construction_validation_witness:
  "Date_ctor 2023 2 29 = Inl Invalid_date \<and>
   Time_ctor 24 0 0 0 = Inl Invalid_time_components \<and>
   DateTime_ctor 2023 2 29 24 0 0 0 = Inl Invalid_date \<and>
   Date_ctor 2024 2 29 = Inr \<lparr>year_f = 2024, month_f = 2, day_f = 29\<rparr> \<and>
   Time_ctor 23 59 59 999999999 = Inr \<lparr>total_nanos = 86399999999999\<rparr>"
proof -
  have i: "is_int32 24" "is_int32 0" "is_int32 23" "is_int32 59" "is_int32 999999999"
    by (simp_all add: is_int32_def)
  have l: "gregorian_month_length 2023 2 = 28" "gregorian_month_length 2024 2 = 29"
    by (simp_all add: gregorian_month_length_def gregorian_leap_def)
  show ?thesis
    using construction_validation [OF i(1) i(2) i(2) i(2), of 2023 2 29]
      construction_validation [OF i(3) i(4) i(4) i(5), of 2024 2 29] l
    by simp
qed


section \<open>Time::add\_seconds as floor-modulo arithmetic\<close>

definition is_int64 :: "int \<Rightarrow> bool" where
  "is_int64 x \<longleftrightarrow> - (2 ^ 63) \<le> x \<and> x < 2 ^ 63"

definition valid_Time :: "Time \<Rightarrow> bool" where
  "valid_Time t \<longleftrightarrow> 0 \<le> total_nanos t \<and> total_nanos t < NANOS_PER_DAY"

lemma floor_mod_of_tmod:
  assumes "0 < b"
  shows "(if tmod x b < 0 then tmod x b + b else tmod x b) = x mod b"
proof (cases "0 \<le> x")
  case True
  then show ?thesis using assms pos_mod_sign [of b x] by (simp add: tmod_nonneg not_less)
next
  case False
  then have x: "x < 0" by simp
  show ?thesis
  proof (cases "(- x) mod b = 0")
    case True
    then have "b dvd x" by (simp add: mod_eq_0_iff_dvd)
    then show ?thesis using True x assms by (simp add: tmod_neg mod_eq_0_iff_dvd)
  next
    case False
    then have "0 < (- x) mod b" using assms
      by (metis less_le pos_mod_sign)
    moreover have "x mod b = b - (- x) mod b"
      using zmod_zminus1_eq_if [of "- x" b] False by simp
    ultimately show ?thesis using x assms by (simp add: tmod_neg)
  qed
qed

lemma u64_id: "0 \<le> x \<Longrightarrow> x < 2 ^ 64 \<Longrightarrow> u64 x = x"
  by (simp add: u64_def)

lemma s64_id: "- (2 ^ 63) \<le> x \<Longrightarrow> x < 2 ^ 63 \<Longrightarrow> s64 x = x"
  by (simp add: s64_def)

lemma s32_id: "- (2 ^ 31) \<le> x \<Longrightarrow> x < 2 ^ 31 \<Longrightarrow> s32 x = x"
  by (simp add: s32_def)

lemma total_seconds_eq:
  assumes "valid_Time t"
  shows "total_seconds t = total_nanos t div 1000000000"
    and "0 \<le> total_seconds t" and "total_seconds t < 86400"
proof -
  have "total_nanos t div 1000000000 \<le> 86399999999999 div 1000000000"
    using assms by (intro zdiv_mono1) (simp_all add: valid_Time_def)
  then have r: "0 \<le> total_nanos t div 1000000000" "total_nanos t div 1000000000 < 86400"
    using assms by (simp_all add: valid_Time_def pos_imp_zdiv_nonneg_iff)
  then show "total_seconds t = total_nanos t div 1000000000"
    by (simp add: total_seconds_def s64_id)
  then show "0 \<le> total_seconds t" and "total_seconds t < 86400" using r by simp_all
qed

lemma Time_add_seconds_total_nanos:
  "total_nanos (Time_add_seconds t delta)
     = ((total_seconds t + delta) mod 86400) * 1000000000 + total_nanos t mod 1000000000"
proof -
  define r where "r = (total_seconds t + delta) mod 86400"
  have r: "0 \<le> r" "r < 86400" by (simp_all add: r_def)
  have n: "0 \<le> total_nanos t mod 1000000000" "total_nanos t mod 1000000000 < 1000000000"
    by simp_all
  have 1: "u64 r = r" using r by (simp add: u64_id)
  have 2: "u64 (r * 1000000000) = r * 1000000000" using r by (simp add: u64_id)
  have 3: "u64 (r * 1000000000 + total_nanos t mod 1000000000)
     = r * 1000000000 + total_nanos t mod 1000000000"
    using r n by (simp add: u64_id)
  show ?thesis
    unfolding Time_add_seconds_def Let_def floor_mod_of_tmod [of 86400, simplified]
    by (simp add: r_def [symmetric] 1 2 3)
qed


lemma sub_second_frame:
  assumes "total_nanos t' mod 1000000000 = total_nanos t mod 1000000000"
  shows "nanosecond t' = nanosecond t \<and> microsecond t' = microsecond t
    \<and> millisecond t' = millisecond t"
  using assms by (simp add: nanosecond_def microsecond_def millisecond_def)

lemma Time_add_seconds_frame:
  "total_nanos (Time_add_seconds t delta) mod 1000000000 = total_nanos t mod 1000000000"
  by (simp add: Time_add_seconds_total_nanos)

lemma Time_from_seconds_eq:
  "Time_from_seconds x = Inr \<lparr>total_nanos = (x mod 86400) * 1000000000\<rparr>"
proof -
  define r where "r = x mod 86400"
  have r: "0 \<le> r" "r < 86400" by (simp_all add: r_def)
  have 1: "u64 r = r" using r by (simp add: u64_id)
  have 2: "u64 (r * 1000000000) = r * 1000000000" using r by (simp add: u64_id)
  have 3: "r * 1000000000 < 86400000000000" using r by simp
  show ?thesis
    unfolding Time_from_seconds_def Let_def floor_mod_of_tmod [of 86400, simplified]
    using 3 by (simp add: r_def [symmetric] 1 2 Time_from_nanos_def)
qed

lemma Time_add_nanoseconds_small:
  assumes "0 \<le> r" and "r < 86400" and "0 \<le> n" and "n < 1000000000"
  shows "Time_add_nanoseconds \<lparr>total_nanos = r * 1000000000\<rparr> n
     = \<lparr>total_nanos = r * 1000000000 + n\<rparr>"
proof -
  define v where "v = r * 1000000000 + n"
  have v: "0 \<le> v" "v < 86400000000000" using assms by (simp_all add: v_def)
  have 0: "s64 (r * 1000000000) = r * 1000000000" using assms by (simp add: s64_id)
  have 1: "u64 v = v" using v by (simp add: u64_id)
  have 2: "v mod 86400000000000 = v" using v by simp
  have 3: "s64 v = v" using v by (simp add: s64_id)
  show ?thesis
    unfolding Time_add_nanoseconds_def Let_def
    using v by (simp add: 0 v_def [symmetric] 1 2 3)
qed

lemma DateTime_add_seconds_frame:
  assumes "valid_Time (time_f dt)"
  shows "\<exists>dt'. DateTime_add_seconds dt delta = Inr dt'
     \<and> total_nanos (time_f dt') mod 1000000000 = total_nanos (time_f dt) mod 1000000000"
proof (cases "delta = 0")
  case True
  then show ?thesis by (simp add: DateTime_add_seconds_def)
next
  case False
  define n where "n = total_nanos (time_f dt) mod 1000000000"
  have n: "0 \<le> n" "n < 1000000000" by (simp_all add: n_def)
  have ns: "nanosecond (time_f dt) = n"
    using n by (simp add: nanosecond_def n_def [symmetric] s32_id)
  have *: "\<exists>t'. Time_add_nanoseconds \<lparr>total_nanos = (x mod 86400) * 1000000000\<rparr> n = t'
      \<and> total_nanos t' mod 1000000000 = n" for x
    using Time_add_nanoseconds_small [of "x mod 86400" n] n by simp
  show ?thesis
    unfolding DateTime_add_seconds_def Let_def split_def
    using False * by (simp add: Time_from_seconds_eq ns n_def [symmetric])
qed


text \<open>C10: for every valid Time and every \<^verbatim>\<open>int64_t\<close> delta whose sum with the seconds
  of the day does not overflow, Time::add\_seconds leaves nanosecond(), microsecond() and
  millisecond() unchanged, and so do add\_minutes and add\_hours where the scaled delta
  does not overflow; DateTime::add\_seconds returns and preserves the nanosecond of the
  time component across the day carry, for deltas of up to 2 ^ 47 seconds, whose day count
  fits \<^verbatim>\<open>int32_t\<close>.\<close>

theorem add_seconds_preserves_sub_second:
  assumes "valid_Time t" and "is_int64 delta"
  shows
    "(is_int64 (total_seconds t + delta) \<longrightarrow>
        nanosecond (Time_add_seconds t delta) = nanosecond t \<and>
        microsecond (Time_add_seconds t delta) = microsecond t \<and>
        millisecond (Time_add_seconds t delta) = millisecond t) \<and>
     (is_int64 (delta * 60) \<and> is_int64 (total_seconds t + delta * 60) \<longrightarrow>
        nanosecond (Time_add_minutes t delta) = nanosecond t \<and>
        microsecond (Time_add_minutes t delta) = microsecond t \<and>
        millisecond (Time_add_minutes t delta) = millisecond t) \<and>
     (is_int64 (delta * 3600) \<and> is_int64 (total_seconds t + delta * 3600) \<longrightarrow>
        nanosecond (Time_add_hours t delta) = nanosecond t \<and>
        microsecond (Time_add_hours t delta) = microsecond t \<and>
        millisecond (Time_add_hours t delta) = millisecond t) \<and>
     (valid_Time (time_f dt) \<and> \<bar>delta\<bar> \<le> 2 ^ 47 \<longrightarrow>
        (\<exists>dt'. DateTime_add_seconds dt delta = Inr dt' \<and>
           nanosecond (time_f dt') = nanosecond (time_f dt)))"
proof -
  have "\<exists>dt'. DateTime_add_seconds dt delta = Inr dt' \<and>
      nanosecond (time_f dt') = nanosecond (time_f dt)"
    if "valid_Time (time_f dt)"
    using DateTime_add_seconds_frame [OF that, of delta] sub_second_frame by blast
  then show ?thesis
    using sub_second_frame [OF Time_add_seconds_frame]
    by (simp add: Time_add_minutes_def Time_add_hours_def)
qed

text \<open>C10 at 12:34:56.123456789 and a delta of -100000 seconds, minutes or hours, which
  crosses midnight backward.\<close>

theorem add_seconds_preserves_sub_second_witness:
  "valid_Time \<lparr>total_nanos = 45296123456789\<rparr> \<and> is_int64 (- 100000) \<and>
   Time_ctor 12 34 56 123456789 = Inr \<lparr>total_nanos = 45296123456789\<rparr> \<and>
   Time_add_seconds \<lparr>total_nanos = 45296123456789\<rparr> (- 100000)
     = \<lparr>total_nanos = 31696123456789\<rparr> \<and>
   nanosecond (Time_add_seconds \<lparr>total_nanos = 45296123456789\<rparr> (- 100000)) = 123456789 \<and>
   microsecond (Time_add_seconds \<lparr>total_nanos = 45296123456789\<rparr> (- 100000)) = 123456 \<and>
   millisecond (Time_add_seconds \<lparr>total_nanos = 45296123456789\<rparr> (- 100000)) = 123 \<and>
   nanosecond (Time_add_hours \<lparr>total_nanos = 45296123456789\<rparr> (- 100000)) = 123456789 \<and>
   (\<exists>dt'. DateTime_add_seconds
            \<lparr>date_f = \<lparr>year_f = 2024, month_f = 3, day_f = 1\<rparr>,
             time_f = \<lparr>total_nanos = 45296123456789\<rparr>\<rparr> (- 100000) = Inr dt' \<and>
          nanosecond (time_f dt') = 123456789)"
proof -
  let ?t = "\<lparr>total_nanos = 45296123456789\<rparr>"
  let ?dt = "\<lparr>date_f = \<lparr>year_f = 2024, month_f = 3, day_f = 1\<rparr>, time_f = ?t\<rparr>"
  have h1: "valid_Time ?t" by (simp add: valid_Time_def)
  have h2: "is_int64 (- 100000)" by (simp add: is_int64_def)
  have h3: "is_int64 (total_seconds ?t + - 100000)"
    "is_int64 (- 100000 * 3600)" "is_int64 (total_seconds ?t + - 100000 * 3600)"
    by (simp_all add: is_int64_def total_seconds_def s64_def)
  have h4: "valid_Time (time_f ?dt)" "\<bar>- 100000 :: int\<bar> \<le> 2 ^ 47"
    using h1 by simp_all
  have e: "nanosecond ?t = 123456789" "microsecond ?t = 123456" "millisecond ?t = 123"
    by (simp_all add: nanosecond_def microsecond_def millisecond_def s32_def)
  have c: "Time_ctor 12 34 56 123456789 = Inr ?t"
    "Time_add_seconds ?t (- 100000) = \<lparr>total_nanos = 31696123456789\<rparr>"
    by code_simp+
  show ?thesis
    using add_seconds_preserves_sub_second [OF h1 h2, of ?dt] h1 h2 h3 h4 e c by simp
qed



section \<open>Date::add\_months inside the calendar\<close>

text \<open>Where the month index T = (year-1)*12 + (month-1) + n is not negative and
  decomposes to a year of at most 9999, add\_months(n) yields year T div 12 + 1, month
  T mod 12 + 1, and the day clamped to the length of that month; add\_years(k) is
  add\_months(k*12).\<close>

lemma add_months_in_range:
  assumes "valid_Date v"
    and "T = (year_f v - 1) * 12 + (month_f v - 1) + n"
    and "0 \<le> T" and "T div 12 + 1 \<le> 9999"
  shows "Date_add_months v n =
       \<lparr>year_f = T div 12 + 1, month_f = T mod 12 + 1,
        day_f = min (day_f v) (days_in_month (T mod 12 + 1) (T div 12 + 1))\<rparr>
     \<and> (is_int32 (k * 12) \<longrightarrow> Date_add_years v k = Date_add_months v (k * 12))"
proof -
  have v: "1 \<le> year_f v" "year_f v \<le> 9999" "1 \<le> month_f v" "month_f v \<le> 12"
    "1 \<le> day_f v" "day_f v \<le> days_in_month (month_f v) (year_f v)"
    using assms(1) by (simp_all add: valid_Date_def is_valid_date_iff normal_date_def)
  define y' where "y' = T div 12 + 1"
  define m' where "m' = T mod 12 + 1"
  define d' where "d' = min (day_f v) (days_in_month m' y')"
  have m': "1 \<le> m'" "m' \<le> 12" by (simp_all add: m'_def)
  have y': "1 \<le> y'" "y' \<le> 9999"
    using assms(3,4) by (simp_all add: y'_def pos_imp_zdiv_nonneg_iff)
  have d': "1 \<le> d'" "d' \<le> days_in_month m' y'"
    using v(5) days_in_month_pos [OF m', of y'] by (simp_all add: d'_def)
  have ok: "is_valid_date y' m' d'"
    using m' y' d' by (simp add: is_valid_date_iff normal_date_def)
  have td: "tdiv T 12 = T div 12" "tmod T 12 = T mod 12"
    using assms(3) by (simp_all add: tdiv_nonneg tmod_nonneg)
  have eq: "v = \<lparr>year_f = year_f v, month_f = month_f v, day_f = day_f v\<rparr>" by simp
  have "Date_add_months v n = \<lparr>year_f = y', month_f = m', day_f = d'\<rparr>"
  proof (cases "n = 0")
    case True
    then have T: "T = (year_f v - 1) * 12 + (month_f v - 1)" using assms(2) by simp
    have T': "T = 12 * (year_f v - 1) + (month_f v - 1)" using T by simp
    have "T div 12 = year_f v - 1"
      using v(3,4) by (intro int_div_pos_eq [OF T']) simp_all
    moreover have "T mod 12 = month_f v - 1"
      using v(3,4) by (intro int_mod_pos_eq [OF T']) simp_all
    ultimately have "T div 12 = year_f v - 1" "T mod 12 = month_f v - 1" by simp_all
    then have "y' = year_f v" "m' = month_f v" "d' = day_f v"
      using v(6) by (simp_all add: y'_def m'_def d'_def)
    then show ?thesis using True eq by (simp add: Date_add_months_def)
  next
    case False
    have "Date_add_months v n = v\<lparr>year_f := u16 y', month_f := u8 m', day_f := u8 d'\<rparr>"
    proof (cases "days_in_month m' y' < day_f v")
      case True
      then have "d' = days_in_month m' y'" by (simp add: d'_def)
      then show ?thesis
        unfolding Date_add_months_def Let_def assms(2) [symmetric] td
          y'_def [symmetric] m'_def [symmetric]
        using \<open>n \<noteq> 0\<close> y' True ok by simp
    next
      case False
      then have "d' = day_f v" by (simp add: d'_def)
      then show ?thesis
        unfolding Date_add_months_def Let_def assms(2) [symmetric] td
          y'_def [symmetric] m'_def [symmetric]
        using \<open>n \<noteq> 0\<close> y' False ok by simp
    qed
    then show ?thesis using stored_fields [OF ok] by simp
  qed
  then show ?thesis by (simp add: y'_def m'_def d'_def Date_add_years_def)
qed

text \<open>The two examples of the specification: January 31 plus one month is February 29 in
  2024 and February 28 in 2023, never a day of March.\<close>

lemma add_months_in_range_examples:
  "Date_add_months \<lparr>year_f = 2024, month_f = 1, day_f = 31\<rparr> 1
     = \<lparr>year_f = 2024, month_f = 2, day_f = 29\<rparr> \<and>
   Date_add_months \<lparr>year_f = 2023, month_f = 1, day_f = 31\<rparr> 1
     = \<lparr>year_f = 2023, month_f = 2, day_f = 28\<rparr> \<and>
   Date_add_years \<lparr>year_f = 2024, month_f = 2, day_f = 29\<rparr> 1
     = Date_add_months \<lparr>year_f = 2024, month_f = 2, day_f = 29\<rparr> 12"
proof -
  have h: "valid_Date \<lparr>year_f = 2024, month_f = 1, day_f = 31\<rparr>"
    "valid_Date \<lparr>year_f = 2023, month_f = 1, day_f = 31\<rparr>"
    by code_simp+
  have l: "days_in_month 2 2024 = 29" "days_in_month 2 2023 = 28"
    by code_simp+
  have a: "Date_add_months \<lparr>year_f = 2024, month_f = 1, day_f = 31\<rparr> 1
     = \<lparr>year_f = 2024, month_f = 2, day_f = 29\<rparr>"
    using add_months_in_range [OF h(1), of 24277 1] l by simp
  have b: "Date_add_months \<lparr>year_f = 2023, month_f = 1, day_f = 31\<rparr> 1
     = \<lparr>year_f = 2023, month_f = 2, day_f = 28\<rparr>"
    using add_months_in_range [OF h(2), of 24265 1] l by simp
  show ?thesis using a b by (simp add: Date_add_years_def)
qed



text \<open>C4: for every valid Date and every integer n, add\_months(n) decomposes the month
  index (year-1)*12 + (month-1) + n back into a year and a month and clamps the day to the
  length of that month.  For a negative index the code does not: \<^verbatim>\<open>total_months % 12\<close>
  truncates towards zero, the month comes out below 1, \<^verbatim>\<open>days_in_month\<close> of it is 0,
  the day is clamped to 0, and the triple fails \<^verbatim>\<open>is_valid_date\<close>, so the Date stays
  as it was.  Date(2024,5,31).add\_months(-24300) has index -20, which decomposes to
  month 5 (-20 mod 12 + 1) of year -1; the code computes month -7 and day 0 and leaves
  2024-05-31.  Date(1,1,31).add\_months(-1) has index -1, December of year 0; the code
  computes month 0 and leaves 0001-01-31.\<close>

theorem add_months_negative_index_unchanged:
  "valid_Date \<lparr>year_f = 2024, month_f = 5, day_f = 31\<rparr> \<and>
   (2024 - 1) * 12 + (5 - 1) + (- 24300) = (- 20 :: int) \<and>
   (- 20 :: int) mod 12 + 1 = 5 \<and> (- 20 :: int) div 12 + 1 = - 1 \<and>
   tmod (- 20) 12 + 1 = - 7 \<and> tdiv (- 20) 12 + 1 = 0 \<and>
   days_in_month (- 7) 1 = 0 \<and> \<not> is_valid_date 1 (- 7) 0 \<and>
   Date_add_months \<lparr>year_f = 2024, month_f = 5, day_f = 31\<rparr> (- 24300)
     = \<lparr>year_f = 2024, month_f = 5, day_f = 31\<rparr> \<and>
   valid_Date \<lparr>year_f = 1, month_f = 1, day_f = 31\<rparr> \<and>
   tmod (- 1) 12 + 1 = 0 \<and>
   Date_add_months \<lparr>year_f = 1, month_f = 1, day_f = 31\<rparr> (- 1)
     = \<lparr>year_f = 1, month_f = 1, day_f = 31\<rparr>"
  by code_simp


section \<open>Unix timestamps\<close>

lemma floor_div_of_tdiv:
  assumes "0 < b"
  shows "(if tmod x b < 0 then tdiv x b - 1 else tdiv x b) = x div b"
proof -
  define q r tq tr where "q = x div b" and "r = x mod b" and "tq = tdiv x b" and "tr = tmod x b"
  have m: "(if tr < 0 then tr + b else tr) = r"
    unfolding tr_def r_def using assms by (rule floor_mod_of_tmod)
  have 1: "tq * b + tr = x" by (simp add: tq_def tr_def tmod_def)
  have 2: "q * b + r = x" by (simp add: q_def r_def)
  have 3: "(tq - 1) * b = tq * b - b" by (simp add: algebra_simps)
  have "(if tr < 0 then tq - 1 else tq) * b = q * b"
  proof (cases "tr < 0")
    case True
    then have "tr = r - b" using m by simp
    then have "tq * b - b = q * b" using 1 2 by linarith
    then show ?thesis using True 3 by simp
  next
    case False
    then have "tr = r" using m by simp
    then have "tq * b = q * b" using 1 2 by linarith
    then show ?thesis using False by simp
  qed
  then have "(if tr < 0 then tq - 1 else tq) = q" using assms by simp
  then show ?thesis unfolding q_def tq_def tr_def .
qed

lemma Date_ctor_epoch: "Date_ctor 1970 1 1 = Inr \<lparr>year_f = 1970, month_f = 1, day_f = 1\<rparr>"
  by code_simp

lemma from_unix_timestamp_floor:
  assumes "is_int32 (seconds div 86400)"
  shows "from_unix_timestamp seconds =
     Inr \<lparr>date_f = Date_add_days \<lparr>year_f = 1970, month_f = 1, day_f = 1\<rparr> (seconds div 86400),
          time_f = \<lparr>total_nanos = (seconds mod 86400) * 1000000000\<rparr>\<rparr>"
proof -
  have d: "(if tmod seconds 86400 < 0 then tdiv seconds 86400 - 1 else tdiv seconds 86400)
      = seconds div 86400"
    by (rule floor_div_of_tdiv) simp
  have m: "(if tmod seconds 86400 < 0 then tmod seconds 86400 + 86400 else tmod seconds 86400)
      = seconds mod 86400"
    by (rule floor_mod_of_tmod) simp
  have s: "s32 (seconds div 86400) = seconds div 86400"
    using assms by (simp add: is_int32_def s32_id)
  show ?thesis
  proof (cases "tmod seconds 86400 < 0")
    case True
    then show ?thesis
      using d m s
      by (simp add: from_unix_timestamp_def Date_ctor_epoch Let_def Time_from_seconds_eq)
  next
    case False
    then show ?thesis
      using d m s
      by (simp add: from_unix_timestamp_def Date_ctor_epoch Let_def Time_from_seconds_eq)
  qed
qed

definition valid_DateTime :: "DateTime \<Rightarrow> bool" where
  "valid_DateTime dt \<longleftrightarrow> valid_Date (date_f dt) \<and> valid_Time (time_f dt)"

text \<open>C2: for every DateTime x with a valid date (year in 1..9999), a valid time and a
  zero sub-second component, to\_unix\_timestamp is the day difference from 1970-01-01
  times SECONDS\_PER\_DAY plus the seconds of the day, and from\_unix\_timestamp of it is x
  again; from\_unix\_timestamp floor-divides its argument into whole days and a remainder
  in [0, SECONDS\_PER\_DAY), adds the days to the epoch date and builds the time from the
  remainder (for every argument whose day count fits \<^verbatim>\<open>int32_t\<close>).\<close>

theorem unix_timestamp_round_trip:
  assumes "valid_DateTime x" and "nanosecond (time_f x) = 0"
  shows "to_unix_timestamp x =
       Inr (days_between (date_f x) \<lparr>year_f = 1970, month_f = 1, day_f = 1\<rparr> * 86400
            + total_seconds (time_f x))
     \<and> (\<exists>ts. to_unix_timestamp x = Inr ts \<and> from_unix_timestamp ts = Inr x)
     \<and> (\<forall>seconds. is_int32 (seconds div 86400) \<longrightarrow>
          0 \<le> seconds mod 86400 \<and> seconds mod 86400 < 86400 \<and>
          from_unix_timestamp seconds =
            Inr \<lparr>date_f = Date_add_days \<lparr>year_f = 1970, month_f = 1, day_f = 1\<rparr>
                             (seconds div 86400),
                 time_f = \<lparr>total_nanos = (seconds mod 86400) * 1000000000\<rparr>\<rparr>)"
proof -
  let ?epoch = "\<lparr>year_f = 1970, month_f = 1, day_f = 1\<rparr>"
  have vd: "valid_Date (date_f x)" and vt: "valid_Time (time_f x)"
    using assms(1) by (simp_all add: valid_DateTime_def)
  define D where "D = days_between (date_f x) ?epoch"
  define S where "S = total_seconds (time_f x)"
  have S: "0 \<le> S" "S < 86400" "S = total_nanos (time_f x) div 1000000000"
    using total_seconds_eq [OF vt] by (simp_all add: S_def)
  have ve: "valid_Date ?epoch" by code_simp
  have ne: "date_number ?epoch = 719162"
    by (simp add: date_number_def day_number_def month_offset_cases leap_days_before_def)
  have y: "1 \<le> year_f (date_f x)"
    using vd by (simp add: valid_Date_def is_valid_date_iff)
  have D: "D = date_number (date_f x) - 719162"
    using y by (simp add: D_def days_between_eq ne)
  have Dr: "is_int32 D"
    using date_number_range [OF vd] by (simp add: D is_int32_def)
  have to: "to_unix_timestamp x = Inr (D * 86400 + S)"
    by (simp add: to_unix_timestamp_def Date_ctor_epoch D_def S_def)
  have dv: "(D * 86400 + S) div 86400 = D"
    using S by (intro int_div_pos_eq [of _ _ _ S]) simp_all
  have md: "(D * 86400 + S) mod 86400 = S" "S mod 86400 = S"
    using S by simp_all
  have r: "0 \<le> date_number ?epoch + D" "date_number ?epoch + D \<le> 3652058"
    using date_number_range [OF vd] by (simp_all add: D ne)
  have "valid_Date (Date_add_days ?epoch D)"
    and "date_number (Date_add_days ?epoch D) = date_number (date_f x)"
    using Date_add_days_in_range [OF ve r] by (simp_all add: D ne)
  then have date: "Date_add_days ?epoch D = date_f x"
    using vd by (intro date_number_inj)
  have "total_nanos (time_f x) mod 1000000000 = 0"
  proof -
    have "0 \<le> total_nanos (time_f x) mod 1000000000"
      "total_nanos (time_f x) mod 1000000000 < 1000000000" by simp_all
    then have "s32 (total_nanos (time_f x) mod 1000000000)
        = total_nanos (time_f x) mod 1000000000"
      by (simp add: s32_id)
    then show ?thesis using assms(2) by (simp add: nanosecond_def)
  qed
  then have "S * 1000000000 = total_nanos (time_f x)"
    unfolding S(3) by (simp add: mod_eq_0_iff_dvd)
  then have time: "\<lparr>total_nanos = S * 1000000000\<rparr> = time_f x" by simp
  have "from_unix_timestamp (D * 86400 + S) = Inr x"
    using from_unix_timestamp_floor [of "D * 86400 + S"] Dr
    by (simp add: dv md date time)
  then show ?thesis
    using to from_unix_timestamp_floor by (simp add: D_def S_def)
qed

text \<open>C2 at 1969-07-20T20:18:00, an instant before the epoch, where the timestamp is
  negative.\<close>

theorem unix_timestamp_round_trip_witness:
  "valid_DateTime \<lparr>date_f = \<lparr>year_f = 1969, month_f = 7, day_f = 20\<rparr>,
                   time_f = \<lparr>total_nanos = 73080000000000\<rparr>\<rparr> \<and>
   DateTime_ctor 1969 7 20 20 18 0 0
     = Inr \<lparr>date_f = \<lparr>year_f = 1969, month_f = 7, day_f = 20\<rparr>,
            time_f = \<lparr>total_nanos = 73080000000000\<rparr>\<rparr> \<and>
   to_unix_timestamp \<lparr>date_f = \<lparr>year_f = 1969, month_f = 7, day_f = 20\<rparr>,
                      time_f = \<lparr>total_nanos = 73080000000000\<rparr>\<rparr> = Inr (- 14182920) \<and>
   from_unix_timestamp (- 14182920)
     = Inr \<lparr>date_f = \<lparr>year_f = 1969, month_f = 7, day_f = 20\<rparr>,
            time_f = \<lparr>total_nanos = 73080000000000\<rparr>\<rparr>"
proof -
  let ?x = "\<lparr>date_f = \<lparr>year_f = 1969, month_f = 7, day_f = 20\<rparr>,
             time_f = \<lparr>total_nanos = 73080000000000\<rparr>\<rparr>"
  have h1: "valid_DateTime ?x"
    unfolding valid_DateTime_def valid_Time_def by (simp, code_simp)
  have h2: "nanosecond (time_f ?x) = 0"
    by (simp add: nanosecond_def s32_def)
  have c: "DateTime_ctor 1969 7 20 20 18 0 0 = Inr ?x"
    "to_unix_timestamp ?x = Inr (- 14182920)"
    by code_simp+
  show ?thesis
    using unix_timestamp_round_trip [OF h1 h2] h1 c by auto
qed


end
